theory Spec2Isabelle
  imports Complex_Main
begin

section \<open>The camera capture workflow\<close>

text \<open>
  The repository holds two near-identical React components called \<open>CameraApp\<close>. Both open
  the device camera, freeze a frame and hand it to OpenCV.js. The first counts contours
  whose area exceeds 100 and keeps the count in \<open>objectCount\<close> (a number, initially 0); the
  second counts non-zero pixels and keeps the count in \<open>processedResult\<close> (a number or
  null). They are called the contour variant and the pixel variant below.

  The model is a shallow embedding. The React state variables and the two refs of a
  component are the fields of a record, every handler is a function from the state before
  the call to the state after it, and every answer of the platform or of OpenCV.js that a
  handler waits for is an argument of that function.
\<close>

subsection \<open>Platform objects\<close>

text \<open>A media stream is known by its identity only.\<close>

type_synonym stream = nat

text \<open>The \<open>video\<close> element: what matters of it is its \<open>srcObject\<close>, a stream or null.\<close>

datatype video = Video (srcObject: "stream option")

text \<open>The hidden \<open>canvas\<close> element.\<close>

datatype canvas = Canvas

text \<open>
  The answer of \<open>navigator.mediaDevices.getUserMedia\<close>: the promise resolves with a stream
  or rejects (permission denied, no device). The handler ignores what the rejection says.
\<close>

datatype media = Granted stream | Rejected

text \<open>
  \<open>canvas.toDataURL('image/jpeg')\<close> returns a data URL, a string that begins with the scheme
  \<open>data:\<close>. The argument stands for the rest of the URL, which encodes the pixels drawn on
  the canvas.
\<close>

definition toDataURL :: "string \<Rightarrow> string" where
  "toDataURL pixels = ''data:'' @ pixels"

text \<open>JavaScript truthiness of a \<open>string | null\<close>: null and the empty string are falsy.\<close>

definition truthy :: "string option \<Rightarrow> bool" where
  "truthy x = (case x of None \<Rightarrow> False | Some str \<Rightarrow> str \<noteq> [])"

subsection \<open>Component state\<close>

text \<open>
  The state both variants share: the \<open>useState\<close> variables \<open>isStreaming\<close>,
  \<open>capturedImage\<close>, \<open>error\<close>, \<open>isProcessing\<close>, and the refs \<open>videoRef\<close> and \<open>canvasRef\<close>
  (\<open>None\<close> is a ref whose \<open>current\<close> is null). \<open>stopped\<close> lists the streams whose tracks
  have all been stopped, in the order in which that happened; it belongs to the platform
  and is kept here so that releasing a stream is visible.
\<close>

record workflow =
  isStreaming :: bool
  capturedImage :: "string option"
  error :: "string option"
  isProcessing :: bool
  videoRef :: "video option"
  canvasRef :: "canvas option"
  stopped :: "stream list"

record contour_app = workflow +
  objectCount :: int

record pixel_app = workflow +
  processedResult :: "int option"

text \<open>The state after the first render: the \<open>useState\<close> initial values, both refs attached.\<close>

definition initial_contour :: contour_app where
  "initial_contour =
     \<lparr>isStreaming = False, capturedImage = None, error = None, isProcessing = False,
      videoRef = Some (Video None), canvasRef = Some Canvas, stopped = [],
      objectCount = 0\<rparr>"

definition initial_pixel :: pixel_app where
  "initial_pixel =
     \<lparr>isStreaming = False, capturedImage = None, error = None, isProcessing = False,
      videoRef = Some (Video None), canvasRef = Some Canvas, stopped = [],
      processedResult = None\<rparr>"

subsection \<open>Camera handlers (the same text in both variants)\<close>

definition cameraMessage :: string where
  "cameraMessage =
     ''Camera access failed. Please check your camera permissions in both Chrome and MacOS:''
     @ [CHR 0x0A] @ ''1. Chrome: Click the camera icon in address bar''
     @ [CHR 0x0A] @ ''2. MacOS: System Settings > Privacy & Security > Camera''"

text \<open>
  \<open>startCamera\<close>, given the answer of \<open>getUserMedia\<close>. With a stream and a mounted video
  element the stream is bound, \<open>isStreaming\<close> set and \<open>error\<close> cleared; with a stream and a
  null ref nothing happens at all; a rejection is caught and sets \<open>error\<close>.
\<close>

definition startCamera :: "media \<Rightarrow> 'a workflow_scheme \<Rightarrow> 'a workflow_scheme" where
  "startCamera answer s =
     (case answer of
        Granted stream \<Rightarrow>
          (case videoRef s of
             Some v \<Rightarrow> s\<lparr>videoRef := Some (Video (Some stream)), isStreaming := True, error := None\<rparr>
           | None \<Rightarrow> s)
      | Rejected \<Rightarrow> s\<lparr>error := Some cameraMessage\<rparr>)"

text \<open>
  \<open>stopCamera\<close>: only when the video element is mounted and has a stream are the tracks
  stopped, \<open>srcObject\<close> set to null and \<open>isStreaming\<close> cleared.
\<close>

definition stopCamera :: "'a workflow_scheme \<Rightarrow> 'a workflow_scheme" where
  "stopCamera s =
     (case videoRef s of
        Some (Video (Some stream)) \<Rightarrow>
          s\<lparr>stopped := stopped s @ [stream], videoRef := Some (Video None), isStreaming := False\<rparr>
      | _ \<Rightarrow> s)"

text \<open>
  \<open>captureImage\<close>. \<open>ctx\<close> tells whether \<open>getContext('2d')\<close> returned a context, \<open>pixels\<close>
  is what the frame drawn on the canvas encodes to. The function tests the two refs and the
  context; it does not read \<open>isStreaming\<close>.
\<close>

definition captureImage :: "bool \<Rightarrow> string \<Rightarrow> 'a workflow_scheme \<Rightarrow> 'a workflow_scheme" where
  "captureImage ctx pixels s =
     (case (videoRef s, canvasRef s) of
        (Some v, Some c) \<Rightarrow>
          (if \<not> ctx then s
           else stopCamera (s\<lparr>capturedImage := Some (toDataURL pixels)\<rparr>))
      | _ \<Rightarrow> s)"

subsection \<open>The vision library\<close>

text \<open>
  The variables of \<open>processImage\<close> that hold an OpenCV structure needing \<open>delete()\<close>, and
  the calls made on \<open>window.cv\<close> and on those structures. \<open>Contour i\<close> is the structure
  that \<open>contours.get(i)\<close> returns: a new \<open>Mat\<close>, bound to no variable, that needs
  \<open>delete()\<close> like the others.
\<close>

datatype cv_var = Mat | Gray | Blurred | Thresh | Contours | Hierarchy | Contour nat

datatype cv_call =
    Imread
  | New cv_var
  | CvtColor
  | NewSize
  | GaussianBlur
  | Threshold
  | FindContours
  | VectorSize
  | VectorGet nat
  | ContourArea nat
  | CountNonZero
  | Delete cv_var

text \<open>
  What the library does during one run of \<open>processImage\<close>: which calls throw (with the
  \<open>message\<close> of the error), the areas of the contours that \<open>findContours\<close> stores, in
  order, and the value of \<open>countNonZero\<close>.
\<close>

record collaborator =
  throws :: "cv_call \<Rightarrow> string option"
  contourAreas :: "real list"
  nonZero :: int

text \<open>
  Bookkeeping of one run: the structures allocated and not yet deleted, and every call
  made, the throwing one included.
\<close>

record heap =
  live :: "cv_var list"
  calls :: "cv_call list"

definition no_heap :: heap where
  "no_heap = \<lparr>live = [], calls = []\<rparr>"

text \<open>A block of library calls either throws a message or returns a value.\<close>

type_synonym 'a cvm = "heap \<Rightarrow> (string + 'a) \<times> heap"

definition call :: "collaborator \<Rightarrow> cv_call \<Rightarrow> unit cvm" where
  "call c k h =
     (case throws c k of
        Some msg \<Rightarrow> (Inl msg, h\<lparr>calls := calls h @ [k]\<rparr>)
      | None \<Rightarrow> (Inr (), h\<lparr>calls := calls h @ [k]\<rparr>))"

text \<open>A call whose result is a new structure held by variable \<open>v\<close>.\<close>

definition alloc :: "collaborator \<Rightarrow> cv_call \<Rightarrow> cv_var \<Rightarrow> unit cvm" where
  "alloc c k v h =
     (case call c k h of
        (Inl msg, h') \<Rightarrow> (Inl msg, h')
      | (Inr u, h') \<Rightarrow> (Inr (), h'\<lparr>live := live h' @ [v]\<rparr>))"

text \<open>\<open>v.delete()\<close>.\<close>

definition release :: "collaborator \<Rightarrow> cv_var \<Rightarrow> unit cvm" where
  "release c v h =
     (case call c (Delete v) h of
        (Inl msg, h') \<Rightarrow> (Inl msg, h')
      | (Inr u, h') \<Rightarrow> (Inr (), h'\<lparr>live := removeAll v (live h')\<rparr>))"

text \<open>Statements in sequence: the first throw ends the block.\<close>

fun steps :: "unit cvm list \<Rightarrow> unit cvm" where
  "steps [] h = (Inr (), h)"
| "steps (m # ms) h =
     (case m h of
        (Inl msg, h') \<Rightarrow> (Inl msg, h')
      | (Inr u, h') \<Rightarrow> steps ms h')"

text \<open>
  The counting loop of the contour variant:
  \<^verbatim>\<open>for (let i = 0; i < contours.size(); i++) {
    const area = window.cv.contourArea(contours.get(i));
    if (area > 100) { count++; }
  }\<close>
  \<open>contours.size()\<close> is the number of contours stored and the area of contour \<open>i\<close> is
  the \<open>i\<close>-th entry of \<open>contourAreas\<close>. Every \<open>contours.get(i)\<close> allocates a structure,
  and the loop deletes none.
\<close>

function countLoop :: "collaborator \<Rightarrow> nat \<Rightarrow> int \<Rightarrow> int cvm" where
  "countLoop c i count h =
     (case call c VectorSize h of
        (Inl msg, h1) \<Rightarrow> (Inl msg, h1)
      | (Inr u, h1) \<Rightarrow>
          if i < length (contourAreas c) then
            (case alloc c (VectorGet i) (Contour i) h1 of
               (Inl msg, h2) \<Rightarrow> (Inl msg, h2)
             | (Inr u, h2) \<Rightarrow>
                 (case call c (ContourArea i) h2 of
                    (Inl msg, h3) \<Rightarrow> (Inl msg, h3)
                  | (Inr u, h3) \<Rightarrow>
                      countLoop c (i + 1)
                        (if contourAreas c ! i > 100 then count + 1 else count) h3))
          else (Inr count, h1))"
  by pat_completeness auto
termination
  by (relation "measure (\<lambda>(c, i, count, h). length (contourAreas c) - i)") auto

text \<open>
  The \<open>try\<close> block of the contour variant up to the value passed to \<open>setObjectCount\<close>, and
  the deletions that follow that call.
\<close>

definition contourCount :: "collaborator \<Rightarrow> int cvm" where
  "contourCount c h =
     (case steps
        [alloc c Imread Mat,
         alloc c (New Gray) Gray,
         call c CvtColor,
         alloc c (New Blurred) Blurred,
         call c NewSize,
         call c GaussianBlur,
         alloc c (New Thresh) Thresh,
         call c Threshold,
         alloc c (New Contours) Contours,
         alloc c (New Hierarchy) Hierarchy,
         call c FindContours] h of
        (Inl msg, h') \<Rightarrow> (Inl msg, h')
      | (Inr u, h') \<Rightarrow> countLoop c 0 0 h')"

definition contourCleanup :: "collaborator \<Rightarrow> unit cvm" where
  "contourCleanup c =
     steps [release c Mat, release c Gray, release c Blurred, release c Thresh,
            release c Contours, release c Hierarchy]"

text \<open>The same two parts of the pixel variant, split at \<open>setProcessedResult\<close>.\<close>

definition pixelCount :: "collaborator \<Rightarrow> int cvm" where
  "pixelCount c h =
     (case steps
        [alloc c Imread Mat,
         alloc c (New Gray) Gray,
         call c CvtColor,
         call c CountNonZero] h of
        (Inl msg, h') \<Rightarrow> (Inl msg, h')
      | (Inr u, h') \<Rightarrow> (Inr (nonZero c), h'))"

definition pixelCleanup :: "collaborator \<Rightarrow> unit cvm" where
  "pixelCleanup c = steps [release c Mat, release c Gray]"

subsection \<open>Processing\<close>

text \<open>
  \<open>processImage\<close> is asynchronous. It waits for \<open>createImageFromDataUrl\<close>, whose promise
  resolves when the image's \<open>onload\<close> fires and is never rejected; when the image does not
  load the call stays suspended where it is. A call therefore either settles, with the state
  it leaves and the bookkeeping of the library calls it made, or stays pending in the state
  it had reached.
\<close>

datatype 's outcome = Settled 's heap | Pending 's

fun state_of :: "'s outcome \<Rightarrow> 's" where
  "state_of (Settled s h) = s"
| "state_of (Pending s) = s"

fun heap_of :: "'s outcome \<Rightarrow> heap" where
  "heap_of (Settled s h) = h"
| "heap_of (Pending s) = no_heap"

fun settled :: "'s outcome \<Rightarrow> bool" where
  "settled (Settled s h) = True"
| "settled (Pending s) = False"

definition unavailableMessage :: string where
  "unavailableMessage = ''OpenCV.js not loaded or no image captured''"

text \<open>
  The \<open>catch\<close> and \<open>finally\<close> clauses: a thrown message is stored in \<open>error\<close> behind a
  fixed prefix, and \<open>isProcessing\<close> is cleared either way.
\<close>

definition finish :: "(string + 'b) \<Rightarrow> 'a workflow_scheme \<Rightarrow> 'a workflow_scheme" where
  "finish r s =
     (case r of
        Inl msg \<Rightarrow> s\<lparr>error := Some (''Error processing image: '' @ msg), isProcessing := False\<rparr>
      | Inr x \<Rightarrow> s\<lparr>isProcessing := False\<rparr>)"

text \<open>
  \<open>processImage\<close> of the contour variant. \<open>cv\<close> is \<open>window.cv\<close> (\<open>None\<close> while the library
  has not loaded) and \<open>loaded\<close> tells whether the image's \<open>onload\<close> fires.
\<close>

definition processImage_contour :: "collaborator option \<Rightarrow> bool \<Rightarrow> contour_app \<Rightarrow> contour_app outcome" where
  "processImage_contour cv loaded s =
     (case cv of
        None \<Rightarrow> Settled (s\<lparr>error := Some unavailableMessage\<rparr>) no_heap
      | Some c \<Rightarrow>
          if \<not> truthy (capturedImage s) then Settled (s\<lparr>error := Some unavailableMessage\<rparr>) no_heap
          else
            let s1 = s\<lparr>isProcessing := True\<rparr> in
            if \<not> loaded then Pending s1
            else
              (case contourCount c no_heap of
                 (Inl msg, h) \<Rightarrow> Settled (finish (Inl msg :: string + unit) s1) h
               | (Inr count, h) \<Rightarrow>
                   let s2 = s1\<lparr>objectCount := count\<rparr> in
                   (case contourCleanup c h of
                      (r, h') \<Rightarrow> Settled (finish r s2) h')))"

text \<open>\<open>processImage\<close> of the pixel variant, which also clears \<open>error\<close> before the \<open>try\<close>.\<close>

definition processImage_pixel :: "collaborator option \<Rightarrow> bool \<Rightarrow> pixel_app \<Rightarrow> pixel_app outcome" where
  "processImage_pixel cv loaded s =
     (case cv of
        None \<Rightarrow> Settled (s\<lparr>error := Some unavailableMessage\<rparr>) no_heap
      | Some c \<Rightarrow>
          if \<not> truthy (capturedImage s) then Settled (s\<lparr>error := Some unavailableMessage\<rparr>) no_heap
          else
            let s1 = s\<lparr>isProcessing := True, error := None\<rparr> in
            if \<not> loaded then Pending s1
            else
              (case pixelCount c no_heap of
                 (Inl msg, h) \<Rightarrow> Settled (finish (Inl msg :: string + unit) s1) h
               | (Inr result, h) \<Rightarrow>
                   let s2 = s1\<lparr>processedResult := Some result\<rparr> in
                   (case pixelCleanup c h of
                      (r, h') \<Rightarrow> Settled (finish r s2) h')))"

text \<open>
  The two halves of a call, for runs in which other events arrive while the call waits for
  its image. \<open>begin\<close> is the part before the \<open>await\<close>: the first check, with \<open>cvLoaded\<close>
  telling whether \<open>window.cv\<close> is truthy, and the state updates made before the \<open>try\<close>.
  \<open>resume\<close> is the part after it: the \<open>try\<close> block, \<open>catch\<close> and \<open>finally\<close>, run in the
  state the component has when the image has loaded.
\<close>

definition begin_contour :: "bool \<Rightarrow> contour_app \<Rightarrow> contour_app outcome" where
  "begin_contour cvLoaded s =
     (if \<not> cvLoaded \<or> \<not> truthy (capturedImage s)
      then Settled (s\<lparr>error := Some unavailableMessage\<rparr>) no_heap
      else Pending (s\<lparr>isProcessing := True\<rparr>))"

definition resume_contour :: "collaborator \<Rightarrow> contour_app \<Rightarrow> contour_app outcome" where
  "resume_contour c s1 =
     (case contourCount c no_heap of
        (Inl msg, h) \<Rightarrow> Settled (finish (Inl msg :: string + unit) s1) h
      | (Inr count, h) \<Rightarrow>
          let s2 = s1\<lparr>objectCount := count\<rparr> in
          (case contourCleanup c h of
             (r, h') \<Rightarrow> Settled (finish r s2) h'))"

definition begin_pixel :: "bool \<Rightarrow> pixel_app \<Rightarrow> pixel_app outcome" where
  "begin_pixel cvLoaded s =
     (if \<not> cvLoaded \<or> \<not> truthy (capturedImage s)
      then Settled (s\<lparr>error := Some unavailableMessage\<rparr>) no_heap
      else Pending (s\<lparr>isProcessing := True, error := None\<rparr>))"

definition resume_pixel :: "collaborator \<Rightarrow> pixel_app \<Rightarrow> pixel_app outcome" where
  "resume_pixel c s1 =
     (case pixelCount c no_heap of
        (Inl msg, h) \<Rightarrow> Settled (finish (Inl msg :: string + unit) s1) h
      | (Inr result, h) \<Rightarrow>
          let s2 = s1\<lparr>processedResult := Some result\<rparr> in
          (case pixelCleanup c h of
             (r, h') \<Rightarrow> Settled (finish r s2) h'))"

subsection \<open>Rendering and retake\<close>

text \<open>
  The contour variant always renders the video element, so rendering leaves its refs as
  they are. The pixel variant renders the video element only while \<open>capturedImage\<close> is
  falsy: a render with a frame detaches the ref, a render without one attaches a fresh
  element when none is mounted.
\<close>

definition render_contour :: "contour_app \<Rightarrow> contour_app" where
  "render_contour s = s"

definition render_pixel :: "pixel_app \<Rightarrow> pixel_app" where
  "render_pixel s =
     (if truthy (capturedImage s) then s\<lparr>videoRef := None\<rparr>
      else (case videoRef s of
              None \<Rightarrow> s\<lparr>videoRef := Some (Video None)\<rparr>
            | Some v \<Rightarrow> s))"

text \<open>
  \<open>resetCapture\<close> (contour variant) and \<open>retakeImage\<close> (pixel variant) clear the frame and
  the result and call \<open>startCamera\<close>, which first waits for \<open>getUserMedia\<close>. React commits
  the state updates of a click handler before the browser runs any later task, so the
  component has rendered again by the time the camera answers.
\<close>

definition resetCapture :: "media \<Rightarrow> contour_app \<Rightarrow> contour_app" where
  "resetCapture answer s =
     startCamera answer (render_contour (s\<lparr>capturedImage := None, objectCount := 0\<rparr>))"

definition retakeImage :: "media \<Rightarrow> pixel_app \<Rightarrow> pixel_app" where
  "retakeImage answer s =
     startCamera answer (render_pixel (s\<lparr>capturedImage := None, processedResult := None\<rparr>))"

subsection \<open>Unmounting\<close>

text \<open>
  The effect clean-up \<open>return () => { stopCamera(); }\<close> runs when the component unmounts.
  React has detached the refs of the unmounted elements by then, so \<open>stopCamera\<close> finds
  \<open>videoRef.current\<close> null and does nothing: a stream that is bound at that moment keeps
  running. The canvas is rendered unconditionally, so its ref is null exactly when the
  component has been unmounted; an unmounted component handles and renders nothing.
\<close>

definition unmount :: "'a workflow_scheme \<Rightarrow> 'a workflow_scheme" where
  "unmount s = stopCamera (s\<lparr>videoRef := None, canvasRef := None\<rparr>)"

definition unmounted :: "'a workflow_scheme \<Rightarrow> bool" where
  "unmounted s = (canvasRef s = None)"

subsection \<open>The controls\<close>

text \<open>
  Modelled from the spec: the \<open>Button\<close> component (\<open>@/components/ui/button\<close>) is not among
  the sources. By the disabled-action contract of the spec a click on a disabled button is
  ignored, and a click on an enabled one runs its \<open>onClick\<close> handler. A handler returns the
  state it leaves together with the library calls it made.
\<close>

definition button :: "bool \<Rightarrow> ('s \<Rightarrow> 's \<times> cv_call list) \<Rightarrow> 's \<Rightarrow> 's \<times> cv_call list" where
  "button disabled onClick s = (if disabled then (s, []) else onClick s)"

text \<open>
  A button inside \<open>{shown && (...)}\<close> exists only while \<open>shown\<close> is truthy; one that is
  not rendered cannot be clicked.
\<close>

definition control :: "bool \<Rightarrow> bool \<Rightarrow> ('s \<Rightarrow> 's \<times> cv_call list) \<Rightarrow> 's \<Rightarrow> 's \<times> cv_call list" where
  "control shown disabled onClick s = (if shown then button disabled onClick s else (s, []))"

text \<open>
  What can happen to a mounted component: a click on one of its four controls, or the
  unmount. Here every click carries the answers its handler will get, and the handler is
  run to its end with them: these are the runs in which the camera and the image answer
  before anything else happens. Runs in which other events come first are modelled
  further down, and the two are shown to agree.
\<close>

datatype event =
    StartClicked media
  | CaptureClicked bool string
  | ProcessClicked "collaborator option" bool
  | RetakeClicked media
  | Unmounted

text \<open>
  The JSX of both variants shows \<open>Start Camera\<close> while \<open>!isStreaming && !capturedImage\<close>,
  \<open>Capture Image\<close> while \<open>isStreaming\<close>, and the processing and retake buttons while
  \<open>capturedImage\<close>; the processing button has \<open>disabled={isProcessing}\<close>.
\<close>

definition click_contour :: "event \<Rightarrow> contour_app \<Rightarrow> contour_app \<times> cv_call list" where
  "click_contour e s =
     (case e of
        StartClicked answer \<Rightarrow>
          control (\<not> isStreaming s \<and> \<not> truthy (capturedImage s)) False
            (\<lambda>s. (startCamera answer s, [])) s
      | CaptureClicked ctx pixels \<Rightarrow>
          control (isStreaming s) False (\<lambda>s. (captureImage ctx pixels s, [])) s
      | ProcessClicked cv loaded \<Rightarrow>
          control (truthy (capturedImage s)) (isProcessing s)
            (\<lambda>s. let r = processImage_contour cv loaded s in (state_of r, calls (heap_of r))) s
      | RetakeClicked answer \<Rightarrow>
          control (truthy (capturedImage s)) False (\<lambda>s. (resetCapture answer s, [])) s
      | Unmounted \<Rightarrow> (unmount s, []))"

definition click_pixel :: "event \<Rightarrow> pixel_app \<Rightarrow> pixel_app \<times> cv_call list" where
  "click_pixel e s =
     (case e of
        StartClicked answer \<Rightarrow>
          control (\<not> isStreaming s \<and> \<not> truthy (capturedImage s)) False
            (\<lambda>s. (startCamera answer s, [])) s
      | CaptureClicked ctx pixels \<Rightarrow>
          control (isStreaming s) False (\<lambda>s. (captureImage ctx pixels s, [])) s
      | ProcessClicked cv loaded \<Rightarrow>
          control (truthy (capturedImage s)) (isProcessing s)
            (\<lambda>s. let r = processImage_pixel cv loaded s in (state_of r, calls (heap_of r))) s
      | RetakeClicked answer \<Rightarrow>
          control (truthy (capturedImage s)) False (\<lambda>s. (retakeImage answer s, [])) s
      | Unmounted \<Rightarrow> (unmount s, []))"

text \<open>
  An event is handled and the component renders again, unless the component is unmounted
  or the event has unmounted it.
\<close>

definition dispatch_contour :: "event \<Rightarrow> contour_app \<Rightarrow> contour_app" where
  "dispatch_contour e s =
     (if unmounted s then s
      else let s' = fst (click_contour e s) in
           if unmounted s' then s' else render_contour s')"

definition dispatch_pixel :: "event \<Rightarrow> pixel_app \<Rightarrow> pixel_app" where
  "dispatch_pixel e s =
     (if unmounted s then s
      else let s' = fst (click_pixel e s) in
           if unmounted s' then s' else render_pixel s')"

definition run_contour :: "event list \<Rightarrow> contour_app" where
  "run_contour es = foldl (\<lambda>s e. dispatch_contour e s) initial_contour es"

definition run_pixel :: "event list \<Rightarrow> pixel_app" where
  "run_pixel es = foldl (\<lambda>s e. dispatch_pixel e s) initial_pixel es"

subsection \<open>Events in any order\<close>

text \<open>
  \<open>startCamera\<close> waits for the camera and \<open>processImage\<close> for its image, and while they
  wait the component renders and handles other events. A session is the component state
  together with the number of \<open>startCamera\<close> calls waiting for \<open>getUserMedia\<close> and the
  number of \<open>processImage\<close> calls waiting for their image.
\<close>

record 's session =
  app :: 's
  awaitingCamera :: nat
  awaitingImage :: nat

text \<open>
  A signal is a click, the unmount, the answer of the camera to one waiting \<open>startCamera\<close>,
  or the \<open>onload\<close> of the image of one waiting \<open>processImage\<close>, which comes with what the
  library does in the rest of that call. \<open>ProcessPressed\<close> tells whether \<open>window.cv\<close> is
  truthy at the click.
\<close>

datatype signal =
    StartPressed
  | CapturePressed bool string
  | ProcessPressed bool
  | RetakePressed
  | CameraAnswered media
  | ImageLoaded collaborator
  | Unmount

text \<open>
  One signal. A click counts only while its button is rendered, and for the processing
  button enabled; an answer counts only while a call waits for it. The component renders
  after each signal that it handles; unmounted, it ignores them all.
\<close>

definition step_contour :: "signal \<Rightarrow> contour_app session \<Rightarrow> contour_app session" where
  "step_contour g m =
     (let s = app m in
      if unmounted s then m
      else
        (case g of
           StartPressed \<Rightarrow>
             if \<not> isStreaming s \<and> \<not> truthy (capturedImage s)
             then m\<lparr>awaitingCamera := awaitingCamera m + 1\<rparr> else m
         | CapturePressed ctx pixels \<Rightarrow>
             if isStreaming s then m\<lparr>app := render_contour (captureImage ctx pixels s)\<rparr> else m
         | ProcessPressed cvLoaded \<Rightarrow>
             if truthy (capturedImage s) \<and> \<not> isProcessing s
             then (case begin_contour cvLoaded s of
                     Settled s' h \<Rightarrow> m\<lparr>app := render_contour s'\<rparr>
                   | Pending s1 \<Rightarrow>
                       m\<lparr>app := render_contour s1, awaitingImage := awaitingImage m + 1\<rparr>)
             else m
         | RetakePressed \<Rightarrow>
             if truthy (capturedImage s)
             then m\<lparr>app := render_contour (s\<lparr>capturedImage := None, objectCount := 0\<rparr>),
                     awaitingCamera := awaitingCamera m + 1\<rparr>
             else m
         | CameraAnswered answer \<Rightarrow>
             if 0 < awaitingCamera m
             then m\<lparr>app := render_contour (startCamera answer s),
                     awaitingCamera := awaitingCamera m - 1\<rparr>
             else m
         | ImageLoaded c \<Rightarrow>
             if 0 < awaitingImage m
             then m\<lparr>app := render_contour (state_of (resume_contour c s)),
                     awaitingImage := awaitingImage m - 1\<rparr>
             else m
         | Unmount \<Rightarrow> m\<lparr>app := unmount s\<rparr>))"

definition step_pixel :: "signal \<Rightarrow> pixel_app session \<Rightarrow> pixel_app session" where
  "step_pixel g m =
     (let s = app m in
      if unmounted s then m
      else
        (case g of
           StartPressed \<Rightarrow>
             if \<not> isStreaming s \<and> \<not> truthy (capturedImage s)
             then m\<lparr>awaitingCamera := awaitingCamera m + 1\<rparr> else m
         | CapturePressed ctx pixels \<Rightarrow>
             if isStreaming s then m\<lparr>app := render_pixel (captureImage ctx pixels s)\<rparr> else m
         | ProcessPressed cvLoaded \<Rightarrow>
             if truthy (capturedImage s) \<and> \<not> isProcessing s
             then (case begin_pixel cvLoaded s of
                     Settled s' h \<Rightarrow> m\<lparr>app := render_pixel s'\<rparr>
                   | Pending s1 \<Rightarrow>
                       m\<lparr>app := render_pixel s1, awaitingImage := awaitingImage m + 1\<rparr>)
             else m
         | RetakePressed \<Rightarrow>
             if truthy (capturedImage s)
             then m\<lparr>app := render_pixel (s\<lparr>capturedImage := None, processedResult := None\<rparr>),
                     awaitingCamera := awaitingCamera m + 1\<rparr>
             else m
         | CameraAnswered answer \<Rightarrow>
             if 0 < awaitingCamera m
             then m\<lparr>app := render_pixel (startCamera answer s),
                     awaitingCamera := awaitingCamera m - 1\<rparr>
             else m
         | ImageLoaded c \<Rightarrow>
             if 0 < awaitingImage m
             then m\<lparr>app := render_pixel (state_of (resume_pixel c s)),
                     awaitingImage := awaitingImage m - 1\<rparr>
             else m
         | Unmount \<Rightarrow> m\<lparr>app := unmount s\<rparr>))"

definition trace_contour :: "signal list \<Rightarrow> contour_app session" where
  "trace_contour gs =
     foldl (\<lambda>m g. step_contour g m)
       \<lparr>app = initial_contour, awaitingCamera = 0, awaitingImage = 0\<rparr> gs"

definition trace_pixel :: "signal list \<Rightarrow> pixel_app session" where
  "trace_pixel gs =
     foldl (\<lambda>m g. step_pixel g m)
       \<lparr>app = initial_pixel, awaitingCamera = 0, awaitingImage = 0\<rparr> gs"

text \<open>
  The signals of a click that is handled to its end: the click, then the answer its
  handler waits for. A processing click whose image never loads has no answer.
\<close>

fun signals :: "event \<Rightarrow> signal list" where
  "signals (StartClicked answer) = [StartPressed, CameraAnswered answer]"
| "signals (CaptureClicked ctx pixels) = [CapturePressed ctx pixels]"
| "signals (ProcessClicked None loaded) = [ProcessPressed False]"
| "signals (ProcessClicked (Some c) loaded) =
     (if loaded then [ProcessPressed True, ImageLoaded c] else [ProcessPressed True])"
| "signals (RetakeClicked answer) = [RetakePressed, CameraAnswered answer]"
| "signals Unmounted = [Unmount]"

fun completes :: "event \<Rightarrow> bool" where
  "completes (ProcessClicked (Some c) loaded) = loaded"
| "completes e = True"

subsection \<open>Notions of the specification\<close>

text \<open>A StreamHandle is active: \<open>isStreaming\<close> is true and a stream is bound to the video element.\<close>

definition streamActive :: "'a workflow_scheme \<Rightarrow> bool" where
  "streamActive s =
     (isStreaming s \<and>
      (case videoRef s of Some (Video (Some stream)) \<Rightarrow> True | _ \<Rightarrow> False))"

text \<open>A CapturedFrame is present: \<open>capturedImage\<close> is not null.\<close>

definition framePresent :: "'a workflow_scheme \<Rightarrow> bool" where
  "framePresent s = (capturedImage s \<noteq> None)"

text \<open>The number of qualifying contours: those whose area is greater than 100.\<close>

definition qualifying :: "collaborator \<Rightarrow> int" where
  "qualifying c = int (length (filter (\<lambda>area. area > 100) (contourAreas c)))"

subsection \<open>Notions used in the proofs\<close>

text \<open>
  What every state reached through the controls satisfies: while \<open>isStreaming\<close> is true no
  frame is stored and, unless the component is unmounted, a stream is bound; a stored frame
  is never the empty string.
\<close>

definition consistent :: "'a workflow_scheme \<Rightarrow> bool" where
  "consistent s =
     ((isStreaming s \<longrightarrow> capturedImage s = None \<and> (streamActive s \<or> unmounted s))
      \<and> (capturedImage s = None \<or> truthy (capturedImage s)))"

text \<open>
  A click on the retake button that finds the button rendered, and the count that a
  signal stores: the signal is the \<open>onload\<close> of the image of a waiting \<open>processImage\<close>,
  and every library call of that run up to the count returns. (Both variants store the count
  before they delete the structures, so whether a \<open>delete()\<close> throws afterwards does not
  matter here.)
\<close>

definition retaken :: "signal \<Rightarrow> 'a workflow_scheme \<Rightarrow> bool" where
  "retaken g s =
     (case g of
        RetakePressed \<Rightarrow> \<not> unmounted s \<and> truthy (capturedImage s)
      | _ \<Rightarrow> False)"

definition stored_contour :: "signal \<Rightarrow> contour_app session \<Rightarrow> int option" where
  "stored_contour g m =
     (case g of
        ImageLoaded c \<Rightarrow>
          if \<not> unmounted (app m) \<and> 0 < awaitingImage m
          then (case fst (contourCount c no_heap) of Inr n \<Rightarrow> Some n | Inl msg \<Rightarrow> None)
          else None
      | _ \<Rightarrow> None)"

definition stored_pixel :: "signal \<Rightarrow> pixel_app session \<Rightarrow> int option" where
  "stored_pixel g m =
     (case g of
        ImageLoaded c \<Rightarrow>
          if \<not> unmounted (app m) \<and> 0 < awaitingImage m
          then (case fst (pixelCount c no_heap) of Inr n \<Rightarrow> Some n | Inl msg \<Rightarrow> None)
          else None
      | _ \<Rightarrow> None)"

section \<open>Library calls that do not throw\<close>

lemma call_quiet:
  "throws c k = None \<Longrightarrow> call c k h = (Inr (), h\<lparr>calls := calls h @ [k]\<rparr>)"
  by (simp add: call_def)

lemma alloc_quiet:
  "throws c k = None \<Longrightarrow> alloc c k v h = (Inr (), h\<lparr>calls := calls h @ [k], live := live h @ [v]\<rparr>)"
  by (simp add: alloc_def call_quiet)

lemma release_quiet:
  "throws c (Delete v) = None \<Longrightarrow>
     release c v h = (Inr (), h\<lparr>calls := calls h @ [Delete v], live := removeAll v (live h)\<rparr>)"
  by (simp add: release_def call_quiet)

text \<open>
  The loop started at index \<open>i\<close> adds to \<open>count\<close> the number of contours from \<open>i\<close> on whose
  area exceeds 100, and leaves allocated the structure of every contour it has fetched.
\<close>

lemma countLoop_quiet:
  assumes "\<forall>k. throws c k = None"
  shows "fst (countLoop c i count h)
           = Inr (count + int (length (filter (\<lambda>area. area > 100) (drop i (contourAreas c)))))
         \<and> live (snd (countLoop c i count h))
           = live h @ map Contour [i..<length (contourAreas c)]"
  using assms
proof (induction c i count h rule: countLoop.induct)
  case (1 c i count h)
  show ?case
  proof (cases "i < length (contourAreas c)")
    case True
    let ?h1 = "h\<lparr>calls := calls h @ [VectorSize]\<rparr>"
    let ?h2 = "h\<lparr>calls := calls h @ [VectorSize] @ [VectorGet i], live := live h @ [Contour i]\<rparr>"
    let ?h3 = "h\<lparr>calls := calls h @ [VectorSize] @ [VectorGet i] @ [ContourArea i],
                  live := live h @ [Contour i]\<rparr>"
    let ?count = "if contourAreas c ! i > 100 then count + 1 else count"
    from "1.prems" True
    have unfold: "countLoop c i count h = countLoop c (i + 1) ?count ?h3"
      by (subst countLoop.simps) (simp add: call_quiet alloc_quiet)
    have ih: "fst (countLoop c (i + 1) ?count ?h3)
                = Inr (?count + int (length (filter (\<lambda>area. area > 100) (drop (i + 1) (contourAreas c)))))
              \<and> live (snd (countLoop c (i + 1) ?count ?h3))
                = live ?h3 @ map Contour [i + 1..<length (contourAreas c)]"
    proof (rule "1.IH" [where y = ?h1 and ya = ?h2 and yb = ?h3
                         and x = "Inr ()" and xa = "Inr ()" and xb = "Inr ()"])
      show "(Inr (), ?h1) = call c VectorSize h"
        using "1.prems" by (simp add: call_quiet)
      show "(Inr (), ?h2) = alloc c (VectorGet i) (Contour i) ?h1"
        using "1.prems" by (simp add: alloc_quiet)
      show "(Inr (), ?h3) = call c (ContourArea i) ?h2"
        using "1.prems" by (simp add: call_quiet)
    qed (use True "1.prems" in simp_all)
    from True have "drop i (contourAreas c) = contourAreas c ! i # drop (i + 1) (contourAreas c)"
      by (simp add: Cons_nth_drop_Suc)
    moreover from True have "[i..<length (contourAreas c)] = i # [i + 1..<length (contourAreas c)]"
      by (simp add: upt_conv_Cons)
    ultimately show ?thesis using unfold ih by simp
  next
    case False
    with "1.prems" show ?thesis
      by (subst countLoop.simps, subst (2) countLoop.simps) (simp add: call_quiet)
  qed
qed

lemma contourCount_quiet:
  assumes "\<forall>k. throws c k = None"
  shows "fst (contourCount c h) = Inr (qualifying c)"
    and "live (snd (contourCount c h))
           = live h @ [Mat, Gray, Blurred, Thresh, Contours, Hierarchy]
               @ map Contour [0..<length (contourAreas c)]"
  using assms countLoop_quiet [OF assms, of 0 0]
  by (simp_all add: contourCount_def alloc_quiet call_quiet qualifying_def)

lemma contourCleanup_quiet:
  assumes "\<forall>k. throws c k = None"
  shows "fst (contourCleanup c h) = Inr ()"
    and "live (snd (contourCleanup c h))
           = removeAll Hierarchy (removeAll Contours (removeAll Thresh (removeAll Blurred
               (removeAll Gray (removeAll Mat (live h))))))"
  using assms by (simp_all add: contourCleanup_def release_quiet)

lemma pixelCount_quiet:
  assumes "\<forall>k. throws c k = None"
  shows "fst (pixelCount c h) = Inr (nonZero c)"
    and "live (snd (pixelCount c h)) = live h @ [Mat, Gray]"
  using assms by (simp_all add: pixelCount_def alloc_quiet call_quiet)

lemma pixelCleanup_quiet:
  assumes "\<forall>k. throws c k = None"
  shows "fst (pixelCleanup c h) = Inr ()"
    and "live (snd (pixelCleanup c h)) = removeAll Gray (removeAll Mat (live h))"
  using assms by (simp_all add: pixelCleanup_def release_quiet)

lemma processImage_contour_quiet:
  assumes "\<forall>k. throws c k = None" and "truthy (capturedImage a)"
  shows "processImage_contour (Some c) True a
           = Settled (a\<lparr>objectCount := qualifying c, isProcessing := False\<rparr>)
               (snd (contourCleanup c (snd (contourCount c no_heap))))"
proof -
  obtain r h where count: "contourCount c no_heap = (r, h)" by (cases "contourCount c no_heap")
  obtain r' h' where cleanup: "contourCleanup c h = (r', h')" by (cases "contourCleanup c h")
  from contourCount_quiet(1) [OF assms(1), of no_heap] count have r: "r = Inr (qualifying c)" by simp
  from contourCleanup_quiet(1) [OF assms(1), of h] cleanup have r': "r' = Inr ()" by simp
  show ?thesis
    using assms(2) by (simp add: processImage_contour_def count cleanup r r' finish_def)
qed

lemma processImage_pixel_quiet:
  assumes "\<forall>k. throws c k = None" and "truthy (capturedImage p)"
  shows "processImage_pixel (Some c) True p
           = Settled (p\<lparr>processedResult := Some (nonZero c), error := None, isProcessing := False\<rparr>)
               (snd (pixelCleanup c (snd (pixelCount c no_heap))))"
proof -
  obtain r h where count: "pixelCount c no_heap = (r, h)" by (cases "pixelCount c no_heap")
  obtain r' h' where cleanup: "pixelCleanup c h = (r', h')" by (cases "pixelCleanup c h")
  from pixelCount_quiet(1) [OF assms(1), of no_heap] count have r: "r = Inr (nonZero c)" by simp
  from pixelCleanup_quiet(1) [OF assms(1), of h] cleanup have r': "r' = Inr ()" by simp
  show ?thesis
    using assms(2) by (simp add: processImage_pixel_def count cleanup r r' finish_def)
qed

text \<open>
  When no call throws, the pixel variant has deleted every structure it allocated when the
  call settles. The contour variant has deleted the six structures it holds in variables;
  the structures returned by \<open>contours.get(i)\<close> are still allocated.
\<close>

lemma processImage_quiet_releases:
  assumes "\<forall>k. throws c k = None"
  shows "truthy (capturedImage a) \<Longrightarrow>
           live (heap_of (processImage_contour (Some c) True a))
             = map Contour [0..<length (contourAreas c)]"
    and "truthy (capturedImage p) \<Longrightarrow> live (heap_of (processImage_pixel (Some c) True p)) = []"
proof -
  have "removeAll x (map Contour ns) = map Contour ns"
    if "x \<in> {Mat, Gray, Blurred, Thresh, Contours, Hierarchy}" for x ns
    using that by (induction ns) auto
  then show "truthy (capturedImage a) \<Longrightarrow>
           live (heap_of (processImage_contour (Some c) True a))
             = map Contour [0..<length (contourAreas c)]"
    using assms
    by (simp add: processImage_contour_quiet contourCleanup_quiet contourCount_quiet no_heap_def)
  show "truthy (capturedImage p) \<Longrightarrow> live (heap_of (processImage_pixel (Some c) True p)) = []"
    using assms
    by (simp add: processImage_pixel_quiet pixelCleanup_quiet pixelCount_quiet no_heap_def)
qed

section \<open>Processing a captured frame\<close>

text \<open>
  Claim C2. In a state with a captured frame, with the library loaded, the image loading
  and no library call throwing, \<open>processImage\<close> settles; the contour variant leaves
  \<open>objectCount\<close> equal to the number of contours whose area exceeds 100, the pixel variant
  leaves \<open>processedResult\<close> equal to the number \<open>countNonZero\<close> returned; \<open>isProcessing\<close>
  is false afterwards, and the frame, the streaming flag and the refs are as they were, so
  a Captured state stays Captured. (The pixel variant also leaves \<open>error\<close> null; the contour
  variant leaves \<open>error\<close> as it was.)
\<close>

theorem processImage_sets_count:
  assumes "\<forall>k. throws c k = None"
  shows "(truthy (capturedImage a) \<longrightarrow>
            settled (processImage_contour (Some c) True a)
            \<and> state_of (processImage_contour (Some c) True a)
                = a\<lparr>objectCount := qualifying c, isProcessing := False\<rparr>)
       \<and> (truthy (capturedImage p) \<longrightarrow>
            settled (processImage_pixel (Some c) True p)
            \<and> state_of (processImage_pixel (Some c) True p)
                = p\<lparr>processedResult := Some (nonZero c), error := None, isProcessing := False\<rparr>)"
  using processImage_contour_quiet [OF assms] processImage_pixel_quiet [OF assms]
  by simp

theorem processImage_sets_count_witness:
  "(\<forall>k. throws \<lparr>throws = (\<lambda>k. None), contourAreas = [150, 20, 100.5, 100, 3000], nonZero = 42\<rparr> k = None)
   \<and> truthy (capturedImage (captureImage True ''frame'' (startCamera (Granted 0) initial_contour)))
   \<and> truthy (capturedImage (captureImage True ''frame'' (startCamera (Granted 0) initial_pixel)))
   \<and> objectCount (state_of (processImage_contour
        (Some \<lparr>throws = (\<lambda>k. None), contourAreas = [150, 20, 100.5, 100, 3000], nonZero = 42\<rparr>) True
        (captureImage True ''frame'' (startCamera (Granted 0) initial_contour)))) = 3
   \<and> processedResult (state_of (processImage_pixel
        (Some \<lparr>throws = (\<lambda>k. None), contourAreas = [150, 20, 100.5, 100, 3000], nonZero = 42\<rparr>) True
        (captureImage True ''frame'' (startCamera (Granted 0) initial_pixel)))) = Some 42"
proof -
  let ?c = "\<lparr>throws = (\<lambda>k. None), contourAreas = [150, 20, 100.5, 100, 3000], nonZero = 42\<rparr>"
  have quiet: "\<forall>k. throws ?c k = None" by simp
  have fa: "truthy (capturedImage (captureImage True ''frame'' (startCamera (Granted 0) initial_contour)))"
    by (simp add: captureImage_def startCamera_def initial_contour_def stopCamera_def truthy_def toDataURL_def)
  have fp: "truthy (capturedImage (captureImage True ''frame'' (startCamera (Granted 0) initial_pixel)))"
    by (simp add: captureImage_def startCamera_def initial_pixel_def stopCamera_def truthy_def toDataURL_def)
  have q: "qualifying ?c = 3" by (simp add: qualifying_def)
  from processImage_sets_count [OF quiet,
      of "captureImage True ''frame'' (startCamera (Granted 0) initial_contour)"
         "captureImage True ''frame'' (startCamera (Granted 0) initial_pixel)"] fa fp q quiet
  show ?thesis by simp
qed

text \<open>
  Claim C4. When \<open>window.cv\<close> is not loaded or \<open>capturedImage\<close> is falsy, \<open>processImage\<close>
  settles at once: it stores a fixed, non-empty message in \<open>error\<close>, changes no other part
  of the state (the result, the frame and the streaming flag included) and makes no library
  call.
\<close>

theorem processImage_fail_fast:
  "(cv = None \<or> \<not> truthy (capturedImage a) \<longrightarrow>
      processImage_contour cv loaded a = Settled (a\<lparr>error := Some unavailableMessage\<rparr>) no_heap)
   \<and> (cv = None \<or> \<not> truthy (capturedImage p) \<longrightarrow>
      processImage_pixel cv loaded p = Settled (p\<lparr>error := Some unavailableMessage\<rparr>) no_heap)
   \<and> unavailableMessage \<noteq> [] \<and> calls no_heap = []"
  by (auto simp: processImage_contour_def processImage_pixel_def unavailableMessage_def no_heap_def
      split: option.splits)

theorem processImage_fail_fast_witness:
  "\<not> truthy (capturedImage initial_contour) \<and> \<not> truthy (capturedImage initial_pixel)
   \<and> processImage_contour (Some \<lparr>throws = (\<lambda>k. None), contourAreas = [], nonZero = 0\<rparr>) True initial_contour
       = Settled (initial_contour\<lparr>error := Some unavailableMessage\<rparr>) no_heap
   \<and> processImage_pixel None True initial_pixel
       = Settled (initial_pixel\<lparr>error := Some unavailableMessage\<rparr>) no_heap"
proof -
  have fa: "\<not> truthy (capturedImage initial_contour)" by (simp add: initial_contour_def truthy_def)
  have fp: "\<not> truthy (capturedImage initial_pixel)" by (simp add: initial_pixel_def truthy_def)
  from fa fp
    processImage_fail_fast [of "Some \<lparr>throws = (\<lambda>k. None), contourAreas = [], nonZero = 0\<rparr>"
      initial_contour True initial_pixel]
    processImage_fail_fast [of None initial_contour True initial_pixel]
  show ?thesis by simp
qed

text \<open>
  Claim C6 asks that every structure allocated by \<open>processImage\<close> be deleted on every exit
  path. The deletions stand at the end of the \<open>try\<close> block, so a throw skips them: the
  \<open>catch\<close> clause only stores the message and the \<open>finally\<close> clause only clears
  \<open>isProcessing\<close>. In the pixel variant, when \<open>cvtColor\<close> throws, \<open>mat\<close> and \<open>gray\<close>
  are still allocated when the call settles; in the contour variant, when \<open>threshold\<close>
  throws, so are \<open>mat\<close>, \<open>gray\<close>, \<open>blurred\<close> and \<open>thresh\<close>.
\<close>

theorem processImage_throw_leaks:
  "heap_of (processImage_pixel
      (Some \<lparr>throws = (\<lambda>k. if k = CvtColor then Some ''bad input'' else None),
             contourAreas = [], nonZero = 0\<rparr>)
      True
      (captureImage True ''frame'' (startCamera (Granted 0) initial_pixel)))
   = \<lparr>live = [Mat, Gray], calls = [Imread, New Gray, CvtColor]\<rparr>
   \<and> live (heap_of (processImage_contour
      (Some \<lparr>throws = (\<lambda>k. if k = Threshold then Some ''bad input'' else None),
             contourAreas = [], nonZero = 0\<rparr>)
      True
      (captureImage True ''frame'' (startCamera (Granted 0) initial_contour))))
   = [Mat, Gray, Blurred, Thresh]"
  by (simp add: processImage_pixel_def processImage_contour_def captureImage_def startCamera_def
      initial_pixel_def initial_contour_def stopCamera_def truthy_def toDataURL_def
      pixelCount_def contourCount_def alloc_def call_def no_heap_def)

section \<open>Capturing\<close>

text \<open>
  Claim C3 says that \<open>captureImage\<close> is a no-op whenever \<open>isStreaming\<close> is false. The
  function does not read \<open>isStreaming\<close>: called in the initial state of either variant,
  where nothing is streaming and both refs are attached, it stores what the empty canvas
  encodes to, the data URL \<open>data:,\<close>.
\<close>

theorem captureImage_not_streaming_counterexample:
  "\<not> isStreaming initial_contour \<and> capturedImage initial_contour = None
   \<and> capturedImage (captureImage True '','' initial_contour) = Some ''data:,''
   \<and> \<not> isStreaming initial_pixel \<and> capturedImage initial_pixel = None
   \<and> capturedImage (captureImage True '','' initial_pixel) = Some ''data:,''"
  by (simp add: initial_contour_def initial_pixel_def captureImage_def stopCamera_def toDataURL_def)

text \<open>
  Claim C3 as amended. \<open>captureImage\<close> changes nothing when the video ref or the canvas ref
  is null or \<open>getContext\<close> returns no context. While \<open>isStreaming\<close> is false the capture
  button is not rendered, so a capture click changes nothing and makes no library call.
\<close>

theorem captureImage_guard:
  "(videoRef s = None \<or> canvasRef s = None \<or> \<not> ctx \<longrightarrow> captureImage ctx pixels s = s)
   \<and> (\<not> isStreaming a \<longrightarrow> click_contour (CaptureClicked ctx pixels) a = (a, []))
   \<and> (\<not> isStreaming p \<longrightarrow> click_pixel (CaptureClicked ctx pixels) p = (p, []))"
  by (auto simp: captureImage_def click_contour_def click_pixel_def control_def split: option.splits)

theorem captureImage_guard_witness:
  "\<not> isStreaming initial_contour \<and> \<not> isStreaming initial_pixel
   \<and> captureImage False ''frame'' initial_contour = initial_contour
   \<and> click_contour (CaptureClicked True ''frame'') initial_contour = (initial_contour, [])
   \<and> click_pixel (CaptureClicked True ''frame'') initial_pixel = (initial_pixel, [])"
proof -
  have na: "\<not> isStreaming initial_contour" by (simp add: initial_contour_def)
  have np: "\<not> isStreaming initial_pixel" by (simp add: initial_pixel_def)
  from na np
    captureImage_guard [of initial_contour False "''frame''" initial_contour initial_pixel]
    captureImage_guard [of initial_contour True "''frame''" initial_contour initial_pixel]
  show ?thesis by simp
qed

section \<open>Starting the camera\<close>

text \<open>
  Claim C10. When \<open>getUserMedia\<close> grants a stream while the video ref is null,
  \<open>startCamera\<close> leaves the whole state as it was: \<open>isStreaming\<close>, \<open>error\<close>, the frame and
  the result keep their values, the ref stays null, so the stream is bound to nothing, and
  the list of stopped streams does not grow, so the stream is not stopped either.
\<close>

theorem startCamera_without_surface:
  assumes "videoRef s = None"
  shows "startCamera (Granted stream) s = s"
  using assms by (simp add: startCamera_def)

theorem startCamera_without_surface_witness:
  "videoRef (render_pixel (captureImage True ''frame'' (startCamera (Granted 0) initial_pixel))) = None
   \<and> startCamera (Granted 7) (render_pixel (captureImage True ''frame'' (startCamera (Granted 0) initial_pixel)))
       = render_pixel (captureImage True ''frame'' (startCamera (Granted 0) initial_pixel))
   \<and> stopped (render_pixel (captureImage True ''frame'' (startCamera (Granted 0) initial_pixel))) = [0]"
proof -
  have h: "videoRef (render_pixel (captureImage True ''frame'' (startCamera (Granted 0) initial_pixel))) = None"
    by (simp add: render_pixel_def captureImage_def startCamera_def initial_pixel_def stopCamera_def
        truthy_def toDataURL_def)
  have st: "stopped (render_pixel (captureImage True ''frame'' (startCamera (Granted 0) initial_pixel))) = [0]"
    by (simp add: render_pixel_def captureImage_def startCamera_def initial_pixel_def stopCamera_def
        truthy_def toDataURL_def)
  from startCamera_without_surface [OF h, of 7] h st show ?thesis by simp
qed

section \<open>Re-entrant processing\<close>



section \<open>Retake\<close>

text \<open>
  Claim C8. \<open>resetCapture\<close> (contour variant) and \<open>retakeImage\<close> (pixel variant) set
  \<open>capturedImage\<close> to null and the result to its initial value (0, null), whatever the
  camera answers. When the camera grants a stream, the stream is bound to the video element
  and \<open>isStreaming\<close> is true afterwards; the contour variant needs its video element
  mounted for that, which it is from the first render on, and the pixel variant mounts it
  again in the render that follows the clearing of the frame. In a state with a captured
  frame a click on the retake button runs exactly this handler.
\<close>

theorem retake_restarts:
  "capturedImage (resetCapture answer a) = None \<and> objectCount (resetCapture answer a) = 0
   \<and> capturedImage (retakeImage answer p) = None \<and> processedResult (retakeImage answer p) = None
   \<and> (videoRef a \<noteq> None \<longrightarrow>
        isStreaming (resetCapture (Granted stream) a)
        \<and> videoRef (resetCapture (Granted stream) a) = Some (Video (Some stream)))
   \<and> isStreaming (retakeImage (Granted stream) p)
   \<and> videoRef (retakeImage (Granted stream) p) = Some (Video (Some stream))
   \<and> (truthy (capturedImage a) \<longrightarrow>
        click_contour (RetakeClicked answer) a = (resetCapture answer a, []))
   \<and> (truthy (capturedImage p) \<longrightarrow>
        click_pixel (RetakeClicked answer) p = (retakeImage answer p, []))"
  by (auto simp: resetCapture_def retakeImage_def startCamera_def render_contour_def render_pixel_def
      click_contour_def click_pixel_def control_def button_def truthy_def
      split: media.splits option.splits)


theorem retake_restarts_witness:
  "videoRef (captureImage True ''frame'' (startCamera (Granted 0) initial_contour)) \<noteq> None
   \<and> truthy (capturedImage (captureImage True ''frame'' (startCamera (Granted 0) initial_contour)))
   \<and> truthy (capturedImage (render_pixel (captureImage True ''frame'' (startCamera (Granted 0) initial_pixel))))
   \<and> isStreaming (fst (click_contour (RetakeClicked (Granted 1))
         (captureImage True ''frame'' (startCamera (Granted 0) initial_contour))))
   \<and> capturedImage (fst (click_contour (RetakeClicked (Granted 1))
         (captureImage True ''frame'' (startCamera (Granted 0) initial_contour)))) = None
   \<and> isStreaming (fst (click_pixel (RetakeClicked (Granted 1))
         (render_pixel (captureImage True ''frame'' (startCamera (Granted 0) initial_pixel)))))
   \<and> capturedImage (fst (click_pixel (RetakeClicked (Granted 1))
         (render_pixel (captureImage True ''frame'' (startCamera (Granted 0) initial_pixel))))) = None"
proof -
  let ?a = "captureImage True ''frame'' (startCamera (Granted 0) initial_contour)"
  let ?p = "render_pixel (captureImage True ''frame'' (startCamera (Granted 0) initial_pixel))"
  have va: "videoRef ?a \<noteq> None"
    by (simp add: captureImage_def startCamera_def initial_contour_def stopCamera_def)
  have fa: "truthy (capturedImage ?a)"
    by (simp add: captureImage_def startCamera_def initial_contour_def stopCamera_def truthy_def toDataURL_def)
  have fp: "truthy (capturedImage ?p)"
    by (simp add: render_pixel_def captureImage_def startCamera_def initial_pixel_def stopCamera_def
        truthy_def toDataURL_def)
  from va fa fp retake_restarts [of "Granted 1" ?a ?p 1]
  show ?thesis by simp
qed

section \<open>Stream and frame exclude each other\<close>

lemma consistent_startCamera:
  "consistent s \<Longrightarrow> capturedImage s = None \<Longrightarrow> consistent (startCamera answer s)"
  by (auto simp: consistent_def startCamera_def streamActive_def unmounted_def
      split: media.splits option.splits)

lemma consistent_stopCamera: "consistent s \<Longrightarrow> consistent (stopCamera s)"
  by (auto simp: consistent_def stopCamera_def streamActive_def unmounted_def
      split: option.splits video.splits)

lemma consistent_captureImage:
  "consistent s \<Longrightarrow> consistent (captureImage ctx pixels s)"
  by (auto simp: consistent_def captureImage_def stopCamera_def streamActive_def truthy_def toDataURL_def
      unmounted_def split: option.splits video.splits)

lemma processImage_contour_frame:
  "isStreaming (state_of (processImage_contour cv loaded s)) = isStreaming s"
  "capturedImage (state_of (processImage_contour cv loaded s)) = capturedImage s"
  "videoRef (state_of (processImage_contour cv loaded s)) = videoRef s"
  "canvasRef (state_of (processImage_contour cv loaded s)) = canvasRef s"
  "stopped (state_of (processImage_contour cv loaded s)) = stopped s"
  by (simp_all add: processImage_contour_def finish_def Let_def split: option.split prod.split sum.split)

lemma processImage_pixel_frame:
  "isStreaming (state_of (processImage_pixel cv loaded s)) = isStreaming s"
  "capturedImage (state_of (processImage_pixel cv loaded s)) = capturedImage s"
  "videoRef (state_of (processImage_pixel cv loaded s)) = videoRef s"
  "canvasRef (state_of (processImage_pixel cv loaded s)) = canvasRef s"
  "stopped (state_of (processImage_pixel cv loaded s)) = stopped s"
  by (simp_all add: processImage_pixel_def finish_def Let_def split: option.split prod.split sum.split)

lemma consistent_processImage:
  "consistent a \<Longrightarrow> consistent (state_of (processImage_contour cv loaded a))"
  "consistent p \<Longrightarrow> consistent (state_of (processImage_pixel cv' loaded' p))"
  by (simp_all add: consistent_def streamActive_def unmounted_def processImage_contour_frame
      processImage_pixel_frame)

lemma consistent_resetCapture: "consistent a \<Longrightarrow> \<not> isStreaming a \<Longrightarrow> consistent (resetCapture answer a)"
  unfolding resetCapture_def render_contour_def
  by (rule consistent_startCamera) (auto simp: consistent_def streamActive_def unmounted_def)

lemma consistent_render_pixel: "consistent p \<Longrightarrow> consistent (render_pixel p)"
  by (auto simp: consistent_def render_pixel_def streamActive_def truthy_def unmounted_def
      split: option.splits)

lemma consistent_unmount: "consistent s \<Longrightarrow> consistent (unmount s)"
  by (auto simp: consistent_def unmount_def stopCamera_def streamActive_def unmounted_def)

lemma consistent_retakeImage: "consistent p \<Longrightarrow> \<not> isStreaming p \<Longrightarrow> consistent (retakeImage answer p)"
  unfolding retakeImage_def
  by (rule consistent_startCamera)
     (auto simp: consistent_def render_pixel_def streamActive_def truthy_def unmounted_def
        split: option.splits)

lemma consistent_click_contour: "consistent a \<Longrightarrow> consistent (fst (click_contour e a))"
proof (cases e)
  case (StartClicked answer)
  assume "consistent a"
  then show ?thesis
    using StartClicked consistent_startCamera [of a answer]
    by (auto simp: click_contour_def control_def button_def consistent_def)
next
  case (CaptureClicked ctx px)
  assume "consistent a"
  then show ?thesis
    using CaptureClicked by (simp add: click_contour_def control_def button_def consistent_captureImage)
next
  case (ProcessClicked cv loaded)
  assume "consistent a"
  then show ?thesis
    using ProcessClicked by (simp add: click_contour_def control_def button_def consistent_processImage Let_def)
next
  case (RetakeClicked answer)
  assume c: "consistent a"
  show ?thesis
  proof (cases "truthy (capturedImage a)")
    case True
    with c have "\<not> isStreaming a" by (auto simp: consistent_def truthy_def)
    with c True RetakeClicked show ?thesis
      by (simp add: click_contour_def control_def button_def consistent_resetCapture)
  next
    case False
    with c RetakeClicked show ?thesis by (simp add: click_contour_def control_def)
  qed
next
  case Unmounted
  assume "consistent a"
  then show ?thesis using Unmounted by (simp add: click_contour_def consistent_unmount)
qed

lemma consistent_click_pixel: "consistent p \<Longrightarrow> consistent (fst (click_pixel e p))"
proof (cases e)
  case (StartClicked answer)
  assume "consistent p"
  then show ?thesis
    using StartClicked consistent_startCamera [of p answer]
    by (auto simp: click_pixel_def control_def button_def consistent_def)
next
  case (CaptureClicked ctx px)
  assume "consistent p"
  then show ?thesis
    using CaptureClicked by (simp add: click_pixel_def control_def button_def consistent_captureImage)
next
  case (ProcessClicked cv loaded)
  assume "consistent p"
  then show ?thesis
    using ProcessClicked by (simp add: click_pixel_def control_def button_def consistent_processImage Let_def)
next
  case (RetakeClicked answer)
  assume c: "consistent p"
  show ?thesis
  proof (cases "truthy (capturedImage p)")
    case True
    with c have "\<not> isStreaming p" by (auto simp: consistent_def truthy_def)
    with c True RetakeClicked show ?thesis
      by (simp add: click_pixel_def control_def button_def consistent_retakeImage)
  next
    case False
    with c RetakeClicked show ?thesis by (simp add: click_pixel_def control_def)
  qed
next
  case Unmounted
  assume "consistent p"
  then show ?thesis using Unmounted by (simp add: click_pixel_def consistent_unmount)
qed

lemma consistent_dispatch:
  "consistent a \<Longrightarrow> consistent (dispatch_contour e a)"
  "consistent p \<Longrightarrow> consistent (dispatch_pixel e' p)"
  by (simp_all add: dispatch_contour_def dispatch_pixel_def Let_def render_contour_def
      consistent_click_contour consistent_click_pixel consistent_render_pixel)

lemma consistent_foldl_contour:
  "consistent a \<Longrightarrow> consistent (foldl (\<lambda>s e. dispatch_contour e s) a es)"
  by (induction es arbitrary: a) (simp_all add: consistent_dispatch)

lemma consistent_foldl_pixel:
  "consistent p \<Longrightarrow> consistent (foldl (\<lambda>s e. dispatch_pixel e s) p es)"
  by (induction es arbitrary: p) (simp_all add: consistent_dispatch)

lemma consistent_run: "consistent (run_contour es)" "consistent (run_pixel es)"
  unfolding run_contour_def run_pixel_def
  by (rule consistent_foldl_contour consistent_foldl_pixel,
      simp add: consistent_def initial_contour_def initial_pixel_def)+

text \<open>
  Claim C1 says that after every sequence of the operations at most one of an active stream
  and a stored frame holds. The functions themselves allow both: in the contour variant,
  whose video element is always mounted, \<open>startCamera\<close> called after \<open>captureImage\<close>
  binds a new stream and sets \<open>isStreaming\<close> while \<open>capturedImage\<close> keeps the frame.
\<close>

theorem stream_or_frame_counterexample:
  "streamActive (startCamera (Granted 1) (captureImage True ''frame'' (startCamera (Granted 0) initial_contour)))
   \<and> framePresent (startCamera (Granted 1) (captureImage True ''frame'' (startCamera (Granted 0) initial_contour)))"
  by (simp add: streamActive_def framePresent_def startCamera_def captureImage_def stopCamera_def
      initial_contour_def)

text \<open>
  Claim C1 as amended. For every sequence of events on the rendered controls (the start
  button exists only while nothing is streaming and no frame is stored, the capture button
  only while streaming, the processing and retake buttons only with a frame), each handled
  to its end, and the unmount, starting from the initial state, at most one of an active
  stream and a stored frame holds after each event, in both variants. And \<open>captureImage\<close>
  with a stream bound to the video element stores the frame, stops that stream, unbinds it
  and clears \<open>isStreaming\<close> in the same step.
\<close>

theorem stream_or_frame:
  "\<not> (streamActive (run_contour es) \<and> framePresent (run_contour es))
   \<and> \<not> (streamActive (run_pixel es) \<and> framePresent (run_pixel es))
   \<and> (videoRef s = Some (Video (Some stream)) \<and> canvasRef s \<noteq> None \<longrightarrow>
        captureImage True pixels s
          = s\<lparr>capturedImage := Some (toDataURL pixels), stopped := stopped s @ [stream],
               videoRef := Some (Video None), isStreaming := False\<rparr>)"
  using consistent_run(1) [of es] consistent_run(2) [of es]
  by (auto simp: consistent_def streamActive_def framePresent_def captureImage_def stopCamera_def
      split: option.splits video.splits)



theorem stream_or_frame_witness:
  "videoRef (startCamera (Granted 0) initial_contour) = Some (Video (Some 0))
   \<and> canvasRef (startCamera (Granted 0) initial_contour) \<noteq> None
   \<and> capturedImage (captureImage True ''frame'' (startCamera (Granted 0) initial_contour))
       = Some ''data:frame''
   \<and> \<not> isStreaming (captureImage True ''frame'' (startCamera (Granted 0) initial_contour))
   \<and> stopped (captureImage True ''frame'' (startCamera (Granted 0) initial_contour)) = [0]
   \<and> \<not> (streamActive (run_contour [StartClicked (Granted 0), CaptureClicked True ''frame'',
                                     StartClicked (Granted 1)])
        \<and> framePresent (run_contour [StartClicked (Granted 0), CaptureClicked True ''frame'',
                                       StartClicked (Granted 1)]))"
proof -
  let ?s = "startCamera (Granted 0) initial_contour"
  have v: "videoRef ?s = Some (Video (Some 0))" by (simp add: startCamera_def initial_contour_def)
  have c: "canvasRef ?s \<noteq> None" by (simp add: startCamera_def initial_contour_def)
  have st: "stopped ?s = []" by (simp add: startCamera_def initial_contour_def)
  from v c st
    stream_or_frame [of "[StartClicked (Granted 0), CaptureClicked True ''frame'', StartClicked (Granted 1)]"
      ?s 0 "''frame''"]
  show ?thesis by (simp add: toDataURL_def)
qed

section \<open>Handlers run to their end are runs of the signals\<close>

text \<open>\<open>processImage\<close> is its first half followed, once the image has loaded, by its second.\<close>

lemma processImage_contour_split:
  "processImage_contour cv loaded s
     = (case begin_contour (cv \<noteq> None) s of
          Settled s' h \<Rightarrow> Settled s' h
        | Pending s1 \<Rightarrow>
            (case cv of
               Some c \<Rightarrow> if loaded then resume_contour c s1 else Pending s1
             | None \<Rightarrow> Pending s1))"
  by (simp add: processImage_contour_def begin_contour_def resume_contour_def Let_def
      split: option.split)

lemma processImage_pixel_split:
  "processImage_pixel cv loaded s
     = (case begin_pixel (cv \<noteq> None) s of
          Settled s' h \<Rightarrow> Settled s' h
        | Pending s1 \<Rightarrow>
            (case cv of
               Some c \<Rightarrow> if loaded then resume_pixel c s1 else Pending s1
             | None \<Rightarrow> Pending s1))"
  by (simp add: processImage_pixel_def begin_pixel_def resume_pixel_def Let_def
      split: option.split)

lemma resume_frame:
  "capturedImage (state_of (resume_contour c a)) = capturedImage a"
  "videoRef (state_of (resume_contour c a)) = videoRef a"
  "canvasRef (state_of (resume_contour c a)) = canvasRef a"
  "capturedImage (state_of (resume_pixel c p)) = capturedImage p"
  "videoRef (state_of (resume_pixel c p)) = videoRef p"
  "canvasRef (state_of (resume_pixel c p)) = canvasRef p"
  by (simp_all add: resume_contour_def resume_pixel_def finish_def Let_def
      split: prod.split sum.split)

text \<open>Rendering looks at the frame and the video ref only, and rendering twice changes nothing.\<close>

lemma render_pixel_fixed:
  "render_pixel p = p \<longleftrightarrow> (truthy (capturedImage p) \<longleftrightarrow> videoRef p = None)"
proof -
  have same: "(p\<lparr>videoRef := x\<rparr> = p) = (videoRef p = x)" for x
    by (cases p) auto
  show ?thesis
    by (auto simp: render_pixel_def same split: option.split)
qed

lemma render_pixel_same:
  "render_pixel p = p \<Longrightarrow> capturedImage p' = capturedImage p \<Longrightarrow> videoRef p' = videoRef p
     \<Longrightarrow> render_pixel p' = p'"
  by (simp add: render_pixel_fixed)

lemma render_pixel_twice: "render_pixel (render_pixel p) = render_pixel p"
  by (simp add: render_pixel_def truthy_def split: option.split)

lemma run_pixel_rendered:
  "unmounted (run_pixel es) \<or> render_pixel (run_pixel es) = run_pixel es"
proof (induction es rule: rev_induct)
  case Nil
  then show ?case
    by (simp add: run_pixel_def initial_pixel_def render_pixel_def truthy_def)
next
  case (snoc e es)
  then show ?case
    by (auto simp: run_pixel_def dispatch_pixel_def Let_def render_pixel_twice)
qed

text \<open>
  With nothing waiting, the signals of a click that is handled to its end lead to the
  state that the click leads to, again with nothing waiting.
\<close>

lemma handled_to_end_contour:
  assumes "completes e"
  shows "foldl (\<lambda>m g. step_contour g m) \<lparr>app = a, awaitingCamera = 0, awaitingImage = 0\<rparr> (signals e)
           = \<lparr>app = dispatch_contour e a, awaitingCamera = 0, awaitingImage = 0\<rparr>"
proof (cases "unmounted a")
  case True
  then show ?thesis
    by (cases e rule: signals.cases) (simp_all add: step_contour_def dispatch_contour_def)
next
  case False
  have keep: "\<not> unmounted (startCamera answer s)" if "\<not> unmounted s" for answer and s :: contour_app
    using that by (simp add: unmounted_def startCamera_def split: media.split option.split)
  have keep': "\<not> unmounted (captureImage ctx px s)" if "\<not> unmounted s" for ctx px and s :: contour_app
    using that
    by (simp add: unmounted_def captureImage_def stopCamera_def split: option.split video.split)
  show ?thesis
  proof (cases e rule: signals.cases)
    case (1 answer)
    with False keep [of a answer] show ?thesis
      by (simp add: step_contour_def dispatch_contour_def click_contour_def control_def button_def
          render_contour_def Let_def)
  next
    case (2 ctx px)
    with False keep' [of a ctx px] show ?thesis
      by (simp add: step_contour_def dispatch_contour_def click_contour_def control_def button_def
          render_contour_def Let_def)
  next
    case (3 loaded)
    with False show ?thesis
      by (auto simp: step_contour_def dispatch_contour_def click_contour_def control_def button_def
          render_contour_def Let_def processImage_contour_split begin_contour_def unmounted_def)
  next
    case (4 c loaded)
    with assms have loaded by simp
    with 4 False show ?thesis
      by (auto simp: step_contour_def dispatch_contour_def click_contour_def control_def button_def
          render_contour_def Let_def processImage_contour_split begin_contour_def unmounted_def
          resume_frame)
  next
    case (5 answer)
    with False keep [of "a\<lparr>capturedImage := None, objectCount := 0\<rparr>" answer] show ?thesis
      by (auto simp: step_contour_def dispatch_contour_def click_contour_def control_def button_def
          render_contour_def Let_def resetCapture_def unmounted_def)
  next
    case 6
    with False show ?thesis
      by (auto simp: step_contour_def dispatch_contour_def click_contour_def
          unmount_def stopCamera_def unmounted_def)
  qed
qed

lemma handled_to_end_pixel:
  assumes "completes e" and "unmounted p \<or> render_pixel p = p"
  shows "foldl (\<lambda>m g. step_pixel g m) \<lparr>app = p, awaitingCamera = 0, awaitingImage = 0\<rparr> (signals e)
           = \<lparr>app = dispatch_pixel e p, awaitingCamera = 0, awaitingImage = 0\<rparr>"
proof (cases "unmounted p")
  case True
  then show ?thesis
    by (cases e rule: signals.cases) (simp_all add: step_pixel_def dispatch_pixel_def)
next
  case False
  with assms(2) have fixed: "render_pixel p = p" by simp
  have keep: "\<not> unmounted (startCamera answer s)" if "\<not> unmounted s" for answer and s :: pixel_app
    using that by (simp add: unmounted_def startCamera_def split: media.split option.split)
  have keep': "\<not> unmounted (captureImage ctx px s)" if "\<not> unmounted s" for ctx px and s :: pixel_app
    using that
    by (simp add: unmounted_def captureImage_def stopCamera_def split: option.split video.split)
  have keep'': "\<not> unmounted (render_pixel s)" if "\<not> unmounted s" for s :: pixel_app
    using that by (simp add: unmounted_def render_pixel_def split: option.split)
  show ?thesis
  proof (cases e rule: signals.cases)
    case (1 answer)
    with False fixed keep [of p answer] show ?thesis
      by (simp add: step_pixel_def dispatch_pixel_def click_pixel_def control_def button_def Let_def)
  next
    case (2 ctx px)
    with False fixed keep' [of p ctx px] show ?thesis
      by (simp add: step_pixel_def dispatch_pixel_def click_pixel_def control_def button_def Let_def)
  next
    case (3 loaded)
    have "render_pixel (p\<lparr>error := Some unavailableMessage\<rparr>) = p\<lparr>error := Some unavailableMessage\<rparr>"
      by (rule render_pixel_same [OF fixed]) simp_all
    with 3 False fixed show ?thesis
      by (auto simp: step_pixel_def dispatch_pixel_def click_pixel_def control_def button_def
          Let_def processImage_pixel_split begin_pixel_def unmounted_def)
  next
    case (4 c loaded)
    with assms have loaded by simp
    let ?s1 = "p\<lparr>isProcessing := True, error := None\<rparr>"
    have r1: "render_pixel ?s1 = ?s1"
      by (rule render_pixel_same [OF fixed]) simp_all
    have r0: "render_pixel (p\<lparr>error := Some unavailableMessage\<rparr>) = p\<lparr>error := Some unavailableMessage\<rparr>"
      by (rule render_pixel_same [OF fixed]) simp_all
    from 4 False fixed \<open>loaded\<close> r0 r1 show ?thesis
      by (auto simp: step_pixel_def dispatch_pixel_def click_pixel_def control_def button_def
          Let_def processImage_pixel_split begin_pixel_def unmounted_def resume_frame)
  next
    case (5 answer)
    let ?s = "render_pixel (p\<lparr>capturedImage := None, processedResult := None\<rparr>)"
    from False have "\<not> unmounted ?s" by (intro keep'') (simp add: unmounted_def)
    with 5 False fixed keep [of ?s answer] show ?thesis
      by (auto simp: step_pixel_def dispatch_pixel_def click_pixel_def control_def button_def
          Let_def retakeImage_def)
  next
    case 6
    with False show ?thesis
      by (auto simp: step_pixel_def dispatch_pixel_def click_pixel_def
          unmount_def stopCamera_def unmounted_def)
  qed
qed

lemma foldl_concat_signals:
  "foldl f m (concat (map signals (es @ [e]))) = foldl f (foldl f m (concat (map signals es))) (signals e)"
  by simp

text \<open>
  A sequence of clicks that are all handled to their end is the run of their signals.
\<close>

lemma run_is_trace:
  assumes "\<forall>e\<in>set es. completes e"
  shows "trace_contour (concat (map signals es))
           = \<lparr>app = run_contour es, awaitingCamera = 0, awaitingImage = 0\<rparr>"
    and "trace_pixel (concat (map signals es))
           = \<lparr>app = run_pixel es, awaitingCamera = 0, awaitingImage = 0\<rparr>"
  using assms
proof (induction es rule: rev_induct)
  case Nil
  { case 1 show ?case by (simp add: trace_contour_def run_contour_def) }
  { case 2 show ?case by (simp add: trace_pixel_def run_pixel_def) }
next
  case (snoc e es)
  { case 1
    then have "completes e" and "\<forall>e\<in>set es. completes e" by simp_all
    with snoc.IH(1) handled_to_end_contour [of e "run_contour es"]
    show ?case by (simp add: trace_contour_def run_contour_def) }
  { case 2
    then have "completes e" and "\<forall>e\<in>set es. completes e" by simp_all
    with snoc.IH(2) handled_to_end_pixel [OF _ run_pixel_rendered, of e es]
    show ?case by (simp add: trace_pixel_def run_pixel_def) }
qed

section \<open>Where a result comes from\<close>

text \<open>What one signal does to the result.\<close>

lemma objectCount_step:
  "objectCount (app (step_contour g m))
     = (case stored_contour g m of
          Some n \<Rightarrow> n
        | None \<Rightarrow> if retaken g (app m) then 0 else objectCount (app m))"
proof (cases g)
  case (ImageLoaded c)
  then show ?thesis
    by (auto simp: step_contour_def stored_contour_def retaken_def render_contour_def
        resume_contour_def finish_def Let_def split: prod.split sum.split)
next
  case (ProcessPressed cvLoaded)
  then show ?thesis
    by (simp add: step_contour_def stored_contour_def retaken_def render_contour_def
        begin_contour_def Let_def)
qed (simp_all add: step_contour_def stored_contour_def retaken_def render_contour_def Let_def
      startCamera_def captureImage_def stopCamera_def unmount_def
      split: media.split option.split video.split)

lemma processedResult_step:
  "processedResult (app (step_pixel g m))
     = (case stored_pixel g m of
          Some n \<Rightarrow> Some n
        | None \<Rightarrow> if retaken g (app m) then None else processedResult (app m))"
proof (cases g)
  case (ImageLoaded c)
  then show ?thesis
    by (auto simp: step_pixel_def stored_pixel_def retaken_def render_pixel_def
        resume_pixel_def finish_def Let_def split: prod.split sum.split option.split)
next
  case (ProcessPressed cvLoaded)
  then show ?thesis
    by (simp add: step_pixel_def stored_pixel_def retaken_def render_pixel_def
        begin_pixel_def Let_def split: option.split)
qed (simp_all add: step_pixel_def stored_pixel_def retaken_def render_pixel_def Let_def
      startCamera_def captureImage_def stopCamera_def unmount_def
      split: media.split option.split video.split)

text \<open>A call waits for its image only after a click on the processing button.\<close>

lemma awaitingImage_step:
  "0 < awaitingImage (step_contour g m) \<Longrightarrow> 0 < awaitingImage m \<or> g = ProcessPressed True"
  "0 < awaitingImage (step_pixel g m') \<Longrightarrow> 0 < awaitingImage m' \<or> g = ProcessPressed True"
  by (cases g; auto simp: step_contour_def step_pixel_def begin_contour_def begin_pixel_def Let_def
        split: if_splits)+

lemma trace_snoc:
  "trace_contour (gs @ [g]) = step_contour g (trace_contour gs)"
  "trace_pixel (gs @ [g]) = step_pixel g (trace_pixel gs)"
  by (simp_all add: trace_contour_def trace_pixel_def)

lemma awaitingImage_needs_press:
  "0 < awaitingImage (trace_contour gs) \<Longrightarrow> ProcessPressed True \<in> set gs"
  "0 < awaitingImage (trace_pixel gs) \<Longrightarrow> ProcessPressed True \<in> set gs"
proof (induction gs rule: rev_induct)
  case Nil
  { case 1 then show ?case by (simp add: trace_contour_def) }
  { case 2 then show ?case by (simp add: trace_pixel_def) }
next
  case (snoc g gs)
  { case 1
    with awaitingImage_step(1) [of g "trace_contour gs"] snoc.IH(1)
    show ?case by (auto simp: trace_snoc) }
  { case 2
    with awaitingImage_step(2) [of g "trace_pixel gs"] snoc.IH(2)
    show ?case by (auto simp: trace_snoc) }
qed

lemma snoc_eq_split:
  assumes "post @ [x] = q @ y # r"
  shows "(r = [] \<and> q = post \<and> x = y) \<or> (\<exists>r'. r = r' @ [x] \<and> post = q @ y # r')"
proof (cases r rule: rev_cases)
  case Nil
  with assms show ?thesis by simp
next
  case (snoc r' x')
  with assms have "post @ [x] = (q @ y # r') @ [x']" by simp
  then have "post = q @ y # r'" and "x = x'" by simp_all
  with snoc show ?thesis by simp
qed

lemma count_provenance:
  "objectCount (app (trace_contour gs)) \<noteq> 0 \<Longrightarrow>
     \<exists>pre g post. gs = pre @ g # post
        \<and> stored_contour g (trace_contour pre) = Some (objectCount (app (trace_contour gs)))
        \<and> (\<forall>q r. post = q @ RetakePressed # r
              \<longrightarrow> \<not> retaken RetakePressed (app (trace_contour (pre @ g # q))))"
proof (induction gs rule: rev_induct)
  case Nil
  then show ?case by (simp add: trace_contour_def initial_contour_def)
next
  case (snoc x gs)
  show ?case
  proof (cases "stored_contour x (trace_contour gs)")
    case (Some n)
    then have "objectCount (app (trace_contour (gs @ [x]))) = n"
      by (simp add: trace_snoc objectCount_step)
    with Some have "gs @ [x] = gs @ x # []
        \<and> stored_contour x (trace_contour gs) = Some (objectCount (app (trace_contour (gs @ [x]))))
        \<and> (\<forall>q r. [] = q @ RetakePressed # r
              \<longrightarrow> \<not> retaken RetakePressed (app (trace_contour (gs @ x # q))))" by simp
    then show ?thesis by blast
  next
    case None
    with snoc.prems have quiet: "\<not> retaken x (app (trace_contour gs))"
      and same: "objectCount (app (trace_contour (gs @ [x]))) = objectCount (app (trace_contour gs))"
      by (auto simp: trace_snoc objectCount_step split: if_splits)
    with snoc.prems have "objectCount (app (trace_contour gs)) \<noteq> 0" by simp
    from snoc.IH [OF this] obtain pre g post where
      d: "gs = pre @ g # post"
         "stored_contour g (trace_contour pre) = Some (objectCount (app (trace_contour gs)))"
         "\<forall>q r. post = q @ RetakePressed # r
            \<longrightarrow> \<not> retaken RetakePressed (app (trace_contour (pre @ g # q)))" by blast
    have "\<forall>q r. post @ [x] = q @ RetakePressed # r
            \<longrightarrow> \<not> retaken RetakePressed (app (trace_contour (pre @ g # q)))"
    proof (intro allI impI)
      fix q r
      assume "post @ [x] = q @ RetakePressed # r"
      from snoc_eq_split [OF this] d(1,3) quiet
      show "\<not> retaken RetakePressed (app (trace_contour (pre @ g # q)))" by auto
    qed
    with d same have "gs @ [x] = pre @ g # (post @ [x])
        \<and> stored_contour g (trace_contour pre) = Some (objectCount (app (trace_contour (gs @ [x]))))
        \<and> (\<forall>q r. post @ [x] = q @ RetakePressed # r
              \<longrightarrow> \<not> retaken RetakePressed (app (trace_contour (pre @ g # q))))" by simp
    then show ?thesis by blast
  qed
qed

lemma result_provenance:
  "processedResult (app (trace_pixel gs)) \<noteq> None \<Longrightarrow>
     \<exists>pre g post. gs = pre @ g # post
        \<and> stored_pixel g (trace_pixel pre) = processedResult (app (trace_pixel gs))
        \<and> (\<forall>q r. post = q @ RetakePressed # r
              \<longrightarrow> \<not> retaken RetakePressed (app (trace_pixel (pre @ g # q))))"
proof (induction gs rule: rev_induct)
  case Nil
  then show ?case by (simp add: trace_pixel_def initial_pixel_def)
next
  case (snoc x gs)
  show ?case
  proof (cases "stored_pixel x (trace_pixel gs)")
    case (Some n)
    then have "processedResult (app (trace_pixel (gs @ [x]))) = Some n"
      by (simp add: trace_snoc processedResult_step)
    with Some have "gs @ [x] = gs @ x # []
        \<and> stored_pixel x (trace_pixel gs) = processedResult (app (trace_pixel (gs @ [x])))
        \<and> (\<forall>q r. [] = q @ RetakePressed # r
              \<longrightarrow> \<not> retaken RetakePressed (app (trace_pixel (gs @ x # q))))" by simp
    then show ?thesis by blast
  next
    case None
    with snoc.prems have quiet: "\<not> retaken x (app (trace_pixel gs))"
      and same: "processedResult (app (trace_pixel (gs @ [x]))) = processedResult (app (trace_pixel gs))"
      by (auto simp: trace_snoc processedResult_step split: if_splits)
    with snoc.prems have "processedResult (app (trace_pixel gs)) \<noteq> None" by simp
    from snoc.IH [OF this] obtain pre g post where
      d: "gs = pre @ g # post"
         "stored_pixel g (trace_pixel pre) = processedResult (app (trace_pixel gs))"
         "\<forall>q r. post = q @ RetakePressed # r
            \<longrightarrow> \<not> retaken RetakePressed (app (trace_pixel (pre @ g # q)))" by blast
    have "\<forall>q r. post @ [x] = q @ RetakePressed # r
            \<longrightarrow> \<not> retaken RetakePressed (app (trace_pixel (pre @ g # q)))"
    proof (intro allI impI)
      fix q r
      assume "post @ [x] = q @ RetakePressed # r"
      from snoc_eq_split [OF this] d(1,3) quiet
      show "\<not> retaken RetakePressed (app (trace_pixel (pre @ g # q)))" by auto
    qed
    with d same have "gs @ [x] = pre @ g # (post @ [x])
        \<and> stored_pixel g (trace_pixel pre) = processedResult (app (trace_pixel (gs @ [x])))
        \<and> (\<forall>q r. post @ [x] = q @ RetakePressed # r
              \<longrightarrow> \<not> retaken RetakePressed (app (trace_pixel (pre @ g # q))))" by simp
    then show ?thesis by blast
  qed
qed

text \<open>A signal that stores a count answers a call begun by a click on the processing button.\<close>

lemma stored_needs_press:
  "stored_contour g (trace_contour pre) = Some n \<Longrightarrow> ProcessPressed True \<in> set pre"
  "stored_pixel g (trace_pixel pre) = Some n \<Longrightarrow> ProcessPressed True \<in> set pre"
  by (auto simp: stored_contour_def stored_pixel_def awaitingImage_needs_press
      split: signal.splits if_splits)

lemma resume_quiet:
  assumes "\<forall>k. throws c k = None"
  shows "state_of (resume_contour c a) = a\<lparr>objectCount := qualifying c, isProcessing := False\<rparr>"
    and "state_of (resume_pixel c p) = p\<lparr>processedResult := Some (nonZero c), isProcessing := False\<rparr>"
proof -
  obtain r h where count: "contourCount c no_heap = (r, h)" by (cases "contourCount c no_heap")
  obtain r' h' where cleanup: "contourCleanup c h = (r', h')" by (cases "contourCleanup c h")
  from contourCount_quiet(1) [OF assms, of no_heap] count have r: "r = Inr (qualifying c)" by simp
  from contourCleanup_quiet(1) [OF assms, of h] cleanup have r': "r' = Inr ()" by simp
  show "state_of (resume_contour c a) = a\<lparr>objectCount := qualifying c, isProcessing := False\<rparr>"
    by (simp add: resume_contour_def count cleanup r r' finish_def)
next
  obtain r h where count: "pixelCount c no_heap = (r, h)" by (cases "pixelCount c no_heap")
  obtain r' h' where cleanup: "pixelCleanup c h = (r', h')" by (cases "pixelCleanup c h")
  from pixelCount_quiet(1) [OF assms, of no_heap] count have r: "r = Inr (nonZero c)" by simp
  from pixelCleanup_quiet(1) [OF assms, of h] cleanup have r': "r' = Inr ()" by simp
  show "state_of (resume_pixel c p) = p\<lparr>processedResult := Some (nonZero c), isProcessing := False\<rparr>"
    by (simp add: resume_pixel_def count cleanup r r' finish_def)
qed

text \<open>
  Claim C9 says that the result is set only by a completed successful \<open>processImage\<close> and
  is absent unless such a call has set it since the last retake. Both variants store the
  count before they delete the structures: when \<open>mat.delete()\<close> throws, the call fails
  and sets \<open>error\<close>, and the result it stored stays. And a call that waits for its image
  is not cancelled by a retake: clicked while the call waits, the retake clears the frame
  and the result, and the call stores its count afterwards, in a state with no frame.
\<close>

theorem result_without_success_counterexample:
  "processedResult (run_pixel
      [StartClicked (Granted 0), CaptureClicked True ''frame'',
       ProcessClicked (Some \<lparr>throws = (\<lambda>k. if k = Delete Mat then Some ''deleted'' else None),
                              contourAreas = [], nonZero = 42\<rparr>) True]) = Some 42
   \<and> error (run_pixel
      [StartClicked (Granted 0), CaptureClicked True ''frame'',
       ProcessClicked (Some \<lparr>throws = (\<lambda>k. if k = Delete Mat then Some ''deleted'' else None),
                              contourAreas = [], nonZero = 42\<rparr>) True])
       = Some ''Error processing image: deleted''
   \<and> processedResult (app (trace_pixel
      [StartPressed, CameraAnswered (Granted 0), CapturePressed True ''frame'',
       ProcessPressed True, RetakePressed, CameraAnswered (Granted 1),
       ImageLoaded \<lparr>throws = (\<lambda>k. None), contourAreas = [], nonZero = 42\<rparr>])) = Some 42
   \<and> capturedImage (app (trace_pixel
      [StartPressed, CameraAnswered (Granted 0), CapturePressed True ''frame'',
       ProcessPressed True, RetakePressed, CameraAnswered (Granted 1),
       ImageLoaded \<lparr>throws = (\<lambda>k. None), contourAreas = [], nonZero = 42\<rparr>])) = None"
proof -
  have failing: "state_of (resume_pixel
      \<lparr>throws = (\<lambda>k. if k = Delete Mat then Some ''deleted'' else None),
        contourAreas = [], nonZero = 42\<rparr> p)
      = p\<lparr>processedResult := Some 42, error := Some ''Error processing image: deleted'',
           isProcessing := False\<rparr>" for p
    by (simp add: resume_pixel_def pixelCount_def pixelCleanup_def alloc_def call_def release_def
        finish_def no_heap_def)
  have quiet: "state_of (resume_pixel \<lparr>throws = (\<lambda>k. None), contourAreas = [], nonZero = 42\<rparr> p)
      = p\<lparr>processedResult := Some 42, isProcessing := False\<rparr>" for p
    by (simp add: resume_quiet)
  show ?thesis
    by (simp add: run_pixel_def dispatch_pixel_def click_pixel_def control_def button_def
        processImage_pixel_split begin_pixel_def failing quiet
        trace_pixel_def step_pixel_def render_pixel_def unmounted_def Let_def
        startCamera_def captureImage_def stopCamera_def initial_pixel_def truthy_def toDataURL_def)
qed

text \<open>
  Claim C9 as amended. The result is absent in the initial state. In every state reached
  by clicks and answers in any order, a present result is the count stored when the image
  of a waiting \<open>processImage\<close> loaded and the library calls of that run returned up to the
  count; that call was begun by a click on the processing button with the library loaded,
  and no click on the retake button that found the button rendered has been handled since
  the count was stored. Such a retake click makes the result absent.
\<close>

theorem result_from_stored_count:
  "objectCount initial_contour = 0 \<and> processedResult initial_pixel = None
   \<and> (objectCount (app (trace_contour gs)) \<noteq> 0 \<longrightarrow>
        (\<exists>pre g post. gs = pre @ g # post
           \<and> stored_contour g (trace_contour pre) = Some (objectCount (app (trace_contour gs)))
           \<and> ProcessPressed True \<in> set pre
           \<and> (\<forall>q r. post = q @ RetakePressed # r
                 \<longrightarrow> \<not> retaken RetakePressed (app (trace_contour (pre @ g # q))))))
   \<and> (processedResult (app (trace_pixel gs)) \<noteq> None \<longrightarrow>
        (\<exists>pre g post. gs = pre @ g # post
           \<and> stored_pixel g (trace_pixel pre) = processedResult (app (trace_pixel gs))
           \<and> ProcessPressed True \<in> set pre
           \<and> (\<forall>q r. post = q @ RetakePressed # r
                 \<longrightarrow> \<not> retaken RetakePressed (app (trace_pixel (pre @ g # q))))))
   \<and> (retaken RetakePressed (app m) \<longrightarrow> objectCount (app (step_contour RetakePressed m)) = 0)
   \<and> (retaken RetakePressed (app m') \<longrightarrow> processedResult (app (step_pixel RetakePressed m')) = None)"
proof -
  have contour: "\<exists>pre g post. gs = pre @ g # post
           \<and> stored_contour g (trace_contour pre) = Some (objectCount (app (trace_contour gs)))
           \<and> ProcessPressed True \<in> set pre
           \<and> (\<forall>q r. post = q @ RetakePressed # r
                 \<longrightarrow> \<not> retaken RetakePressed (app (trace_contour (pre @ g # q))))"
    if "objectCount (app (trace_contour gs)) \<noteq> 0"
  proof -
    from count_provenance [OF that] obtain pre g post where
      d: "gs = pre @ g # post"
         "stored_contour g (trace_contour pre) = Some (objectCount (app (trace_contour gs)))"
         "\<forall>q r. post = q @ RetakePressed # r
            \<longrightarrow> \<not> retaken RetakePressed (app (trace_contour (pre @ g # q)))" by blast
    from stored_needs_press(1) [OF d(2)] d show ?thesis by blast
  qed
  have pixel: "\<exists>pre g post. gs = pre @ g # post
           \<and> stored_pixel g (trace_pixel pre) = processedResult (app (trace_pixel gs))
           \<and> ProcessPressed True \<in> set pre
           \<and> (\<forall>q r. post = q @ RetakePressed # r
                 \<longrightarrow> \<not> retaken RetakePressed (app (trace_pixel (pre @ g # q))))"
    if "processedResult (app (trace_pixel gs)) \<noteq> None"
  proof -
    from that obtain n where n: "processedResult (app (trace_pixel gs)) = Some n" by auto
    from result_provenance [OF that] obtain pre g post where
      d: "gs = pre @ g # post"
         "stored_pixel g (trace_pixel pre) = processedResult (app (trace_pixel gs))"
         "\<forall>q r. post = q @ RetakePressed # r
            \<longrightarrow> \<not> retaken RetakePressed (app (trace_pixel (pre @ g # q)))" by blast
    from d(2) n have "stored_pixel g (trace_pixel pre) = Some n" by simp
    from stored_needs_press(2) [OF this] d show ?thesis by blast
  qed
  have retake: "retaken RetakePressed (app m) \<longrightarrow> objectCount (app (step_contour RetakePressed m)) = 0"
    "retaken RetakePressed (app m') \<longrightarrow> processedResult (app (step_pixel RetakePressed m')) = None"
    by (simp_all add: objectCount_step processedResult_step stored_contour_def stored_pixel_def)
  from contour pixel retake show ?thesis
    by (simp add: initial_contour_def initial_pixel_def)
qed

theorem result_from_stored_count_witness:
  "objectCount (app (trace_contour [StartPressed, CameraAnswered (Granted 0), CapturePressed True ''frame'',
      ProcessPressed True, ImageLoaded \<lparr>throws = (\<lambda>k. None), contourAreas = [150, 20], nonZero = 42\<rparr>])) \<noteq> 0
   \<and> processedResult (app (trace_pixel [StartPressed, CameraAnswered (Granted 0), CapturePressed True ''frame'',
      ProcessPressed True, RetakePressed, CameraAnswered (Granted 1),
      ImageLoaded \<lparr>throws = (\<lambda>k. None), contourAreas = [150, 20], nonZero = 42\<rparr>])) \<noteq> None
   \<and> retaken RetakePressed (app (trace_contour [StartPressed, CameraAnswered (Granted 0), CapturePressed True ''frame'',
      ProcessPressed True, ImageLoaded \<lparr>throws = (\<lambda>k. None), contourAreas = [150, 20], nonZero = 42\<rparr>]))
   \<and> retaken RetakePressed (app (trace_pixel [StartPressed, CameraAnswered (Granted 0), CapturePressed True ''frame'']))
   \<and> (\<exists>pre g post. [StartPressed, CameraAnswered (Granted 0), CapturePressed True ''frame'',
      ProcessPressed True, ImageLoaded \<lparr>throws = (\<lambda>k. None), contourAreas = [150, 20], nonZero = 42\<rparr>] = pre @ g # post
         \<and> stored_contour g (trace_contour pre) = Some 1
         \<and> ProcessPressed True \<in> set pre)
   \<and> (\<exists>pre g post. [StartPressed, CameraAnswered (Granted 0), CapturePressed True ''frame'',
      ProcessPressed True, RetakePressed, CameraAnswered (Granted 1),
      ImageLoaded \<lparr>throws = (\<lambda>k. None), contourAreas = [150, 20], nonZero = 42\<rparr>] = pre @ g # post
         \<and> stored_pixel g (trace_pixel pre) = Some 42
         \<and> ProcessPressed True \<in> set pre)
   \<and> objectCount (app (step_contour RetakePressed (trace_contour [StartPressed, CameraAnswered (Granted 0), CapturePressed True ''frame'',
      ProcessPressed True, ImageLoaded \<lparr>throws = (\<lambda>k. None), contourAreas = [150, 20], nonZero = 42\<rparr>]))) = 0
   \<and> processedResult (app (step_pixel RetakePressed (trace_pixel [StartPressed, CameraAnswered (Granted 0), CapturePressed True ''frame'']))) = None"
proof -
  let ?c = "\<lparr>throws = (\<lambda>k. None), contourAreas = [150, 20], nonZero = 42\<rparr>"
  have quiet: "state_of (resume_contour ?c a) = a\<lparr>objectCount := 1, isProcessing := False\<rparr>"
    "state_of (resume_pixel ?c p) = p\<lparr>processedResult := Some 42, isProcessing := False\<rparr>" for a p
    by (simp_all add: resume_quiet qualifying_def)
  have sc: "app (trace_contour [StartPressed, CameraAnswered (Granted 0), CapturePressed True ''frame'',
      ProcessPressed True, ImageLoaded \<lparr>throws = (\<lambda>k. None), contourAreas = [150, 20], nonZero = 42\<rparr>])
      = initial_contour\<lparr>capturedImage := Some ''data:frame'', stopped := [0], objectCount := 1\<rparr>"
    by (simp add: trace_contour_def step_contour_def render_contour_def unmounted_def Let_def
        begin_contour_def quiet
        startCamera_def captureImage_def stopCamera_def initial_contour_def truthy_def toDataURL_def)
  have sp: "processedResult (app (trace_pixel [StartPressed, CameraAnswered (Granted 0), CapturePressed True ''frame'',
      ProcessPressed True, RetakePressed, CameraAnswered (Granted 1),
      ImageLoaded \<lparr>throws = (\<lambda>k. None), contourAreas = [150, 20], nonZero = 42\<rparr>])) = Some 42"
    by (simp add: trace_pixel_def step_pixel_def render_pixel_def unmounted_def Let_def
        begin_pixel_def quiet
        startCamera_def captureImage_def stopCamera_def initial_pixel_def truthy_def toDataURL_def)
  have sq: "capturedImage (app (trace_pixel [StartPressed, CameraAnswered (Granted 0), CapturePressed True ''frame''])) = Some ''data:frame''"
    "canvasRef (app (trace_pixel [StartPressed, CameraAnswered (Granted 0), CapturePressed True ''frame''])) = Some Canvas"
    by (simp_all add: trace_pixel_def step_pixel_def render_pixel_def unmounted_def Let_def
        begin_pixel_def quiet
        startCamera_def captureImage_def stopCamera_def initial_pixel_def truthy_def toDataURL_def)
  have ra: "retaken RetakePressed (app (trace_contour [StartPressed, CameraAnswered (Granted 0), CapturePressed True ''frame'',
      ProcessPressed True, ImageLoaded \<lparr>throws = (\<lambda>k. None), contourAreas = [150, 20], nonZero = 42\<rparr>]))"
    by (simp add: sc retaken_def unmounted_def truthy_def initial_contour_def)
  have rp: "retaken RetakePressed (app (trace_pixel [StartPressed, CameraAnswered (Granted 0), CapturePressed True ''frame'']))"
    by (simp add: sq retaken_def unmounted_def truthy_def)
  have na: "objectCount (app (trace_contour [StartPressed, CameraAnswered (Granted 0), CapturePressed True ''frame'',
      ProcessPressed True, ImageLoaded \<lparr>throws = (\<lambda>k. None), contourAreas = [150, 20], nonZero = 42\<rparr>])) = 1"
    by (simp add: sc)
  from na sp ra rp
    result_from_stored_count [of "[StartPressed, CameraAnswered (Granted 0), CapturePressed True ''frame'',
      ProcessPressed True, ImageLoaded \<lparr>throws = (\<lambda>k. None), contourAreas = [150, 20], nonZero = 42\<rparr>]" "trace_contour [StartPressed, CameraAnswered (Granted 0), CapturePressed True ''frame'',
      ProcessPressed True, ImageLoaded \<lparr>throws = (\<lambda>k. None), contourAreas = [150, 20], nonZero = 42\<rparr>]" "trace_pixel [StartPressed, CameraAnswered (Granted 0), CapturePressed True ''frame'']"]
    result_from_stored_count [of "[StartPressed, CameraAnswered (Granted 0), CapturePressed True ''frame'',
      ProcessPressed True, RetakePressed, CameraAnswered (Granted 1),
      ImageLoaded \<lparr>throws = (\<lambda>k. None), contourAreas = [150, 20], nonZero = 42\<rparr>]" "trace_contour [StartPressed, CameraAnswered (Granted 0), CapturePressed True ''frame'',
      ProcessPressed True, ImageLoaded \<lparr>throws = (\<lambda>k. None), contourAreas = [150, 20], nonZero = 42\<rparr>]" "trace_pixel [StartPressed, CameraAnswered (Granted 0), CapturePressed True ''frame'']"]
  show ?thesis by auto
qed

section \<open>The error message\<close>

text \<open>A block of library calls that throws has made a call that throws that message.\<close>

lemma call_thrown:
  "fst (call c k h) = Inl msg \<Longrightarrow> \<exists>k'\<in>set (calls (snd (call c k h))). throws c k' = Some msg"
  by (auto simp: call_def split: option.splits)

lemma alloc_thrown:
  "fst (alloc c k v h) = Inl msg \<Longrightarrow> \<exists>k'\<in>set (calls (snd (alloc c k v h))). throws c k' = Some msg"
  by (auto simp: alloc_def call_def split: option.splits)

lemma release_thrown:
  "fst (release c v h) = Inl msg \<Longrightarrow> \<exists>k'\<in>set (calls (snd (release c v h))). throws c k' = Some msg"
  by (auto simp: release_def call_def split: option.splits)

lemma steps_thrown:
  assumes "\<forall>m\<in>set ms. \<forall>h msg. fst (m h) = Inl msg
             \<longrightarrow> (\<exists>k\<in>set (calls (snd (m h))). throws c k = Some msg)"
    and "fst (steps ms h) = Inl msg"
  shows "\<exists>k\<in>set (calls (snd (steps ms h))). throws c k = Some msg"
  using assms
proof (induction ms arbitrary: h)
  case Nil
  then show ?case by simp
next
  case (Cons m ms)
  obtain r h' where mh: "m h = (r, h')" by (cases "m h")
  show ?case
  proof (cases r)
    case (Inl msg')
    with mh Cons.prems(2) have "fst (m h) = Inl msg" by simp
    with Cons.prems(1) have "\<exists>k\<in>set (calls (snd (m h))). throws c k = Some msg" by simp
    with mh Inl show ?thesis by simp
  next
    case (Inr u)
    with mh Cons.prems(2) have "fst (steps ms h') = Inl msg" by simp
    with Cons.IH [of h'] Cons.prems(1)
    have "\<exists>k\<in>set (calls (snd (steps ms h'))). throws c k = Some msg" by simp
    with mh Inr show ?thesis by simp
  qed
qed

lemma countLoop_thrown:
  "fst (countLoop c i count h) = Inl msg \<Longrightarrow>
     \<exists>k\<in>set (calls (snd (countLoop c i count h))). throws c k = Some msg"
proof (induction c i count h rule: countLoop.induct)
  case (1 c i count h)
  let ?h1 = "h\<lparr>calls := calls h @ [VectorSize]\<rparr>"
  let ?h2 = "h\<lparr>calls := calls h @ [VectorSize] @ [VectorGet i], live := live h @ [Contour i]\<rparr>"
  let ?h3 = "h\<lparr>calls := calls h @ [VectorSize] @ [VectorGet i] @ [ContourArea i],
                live := live h @ [Contour i]\<rparr>"
  let ?g2 = "h\<lparr>calls := calls h @ [VectorSize] @ [VectorGet i]\<rparr>"
  let ?count = "if contourAreas c ! i > 100 then count + 1 else count"
  show ?case
  proof (cases "throws c VectorSize")
    case (Some m)
    then have "countLoop c i count h = (Inl m, ?h1)"
      by (subst countLoop.simps) (simp add: call_def)
    with "1.prems" Some show ?thesis by auto
  next
    case size_ok: None
    show ?thesis
    proof (cases "i < length (contourAreas c)")
      case False
      with size_ok have "countLoop c i count h = (Inr count, ?h1)"
        by (subst countLoop.simps) (simp add: call_def)
      with "1.prems" show ?thesis by simp
    next
      case True
      show ?thesis
      proof (cases "throws c (VectorGet i)")
        case (Some m)
        with size_ok True have "countLoop c i count h = (Inl m, ?g2)"
          by (subst countLoop.simps) (simp add: call_def alloc_def)
        with "1.prems" Some show ?thesis by auto
      next
        case get_ok: None
        show ?thesis
        proof (cases "throws c (ContourArea i)")
          case (Some m)
          with size_ok True get_ok have "countLoop c i count h = (Inl m, ?h3)"
            by (subst countLoop.simps) (simp add: call_def alloc_def)
          with "1.prems" Some show ?thesis by auto
        next
          case area_ok: None
          with size_ok True get_ok
          have unfold: "countLoop c i count h = countLoop c (i + 1) ?count ?h3"
            by (subst countLoop.simps) (simp add: call_def alloc_def)
          have "\<exists>k\<in>set (calls (snd (countLoop c (i + 1) ?count ?h3))). throws c k = Some msg"
          proof (rule "1.IH" [where y = ?h1 and ya = ?h2 and yb = ?h3
                                and x = "Inr ()" and xa = "Inr ()" and xb = "Inr ()"])
            show "(Inr (), ?h1) = call c VectorSize h"
              using size_ok by (simp add: call_def)
            show "(Inr (), ?h2) = alloc c (VectorGet i) (Contour i) ?h1"
              using get_ok by (simp add: call_def alloc_def)
            show "(Inr (), ?h3) = call c (ContourArea i) ?h2"
              using area_ok by (simp add: call_def)
            show "fst (countLoop c (i + 1) ?count ?h3) = Inl msg"
              using "1.prems" unfold by simp
          qed (use True in simp_all)
          with unfold show ?thesis by simp
        qed
      qed
    qed
  qed
qed

lemma contourCount_thrown:
  "fst (contourCount c h) = Inl msg \<Longrightarrow>
     \<exists>k\<in>set (calls (snd (contourCount c h))). throws c k = Some msg"
proof -
  let ?ms = "[alloc c Imread Mat, alloc c (New Gray) Gray, call c CvtColor,
              alloc c (New Blurred) Blurred, call c NewSize, call c GaussianBlur,
              alloc c (New Thresh) Thresh, call c Threshold, alloc c (New Contours) Contours,
              alloc c (New Hierarchy) Hierarchy, call c FindContours]"
  assume thrown: "fst (contourCount c h) = Inl msg"
  have each: "\<forall>m\<in>set ?ms. \<forall>h msg. fst (m h) = Inl msg
                \<longrightarrow> (\<exists>k\<in>set (calls (snd (m h))). throws c k = Some msg)"
    using call_thrown alloc_thrown by simp
  obtain r h' where st: "steps ?ms h = (r, h')" by (cases "steps ?ms h")
  show ?thesis
  proof (cases r)
    case (Inl msg')
    with st thrown have "fst (steps ?ms h) = Inl msg" by (simp add: contourCount_def)
    from steps_thrown [OF each this] st Inl show ?thesis by (simp add: contourCount_def)
  next
    case (Inr u)
    with st thrown have "fst (countLoop c 0 0 h') = Inl msg" by (simp add: contourCount_def)
    from countLoop_thrown [OF this] st Inr show ?thesis by (simp add: contourCount_def)
  qed
qed

lemma contourCleanup_thrown:
  "fst (contourCleanup c h) = Inl msg \<Longrightarrow>
     \<exists>k\<in>set (calls (snd (contourCleanup c h))). throws c k = Some msg"
  unfolding contourCleanup_def
  by (rule steps_thrown [rotated]) (use release_thrown in simp_all)

lemma pixelCount_thrown:
  "fst (pixelCount c h) = Inl msg \<Longrightarrow>
     \<exists>k\<in>set (calls (snd (pixelCount c h))). throws c k = Some msg"
proof -
  let ?ms = "[alloc c Imread Mat, alloc c (New Gray) Gray, call c CvtColor, call c CountNonZero]"
  assume thrown: "fst (pixelCount c h) = Inl msg"
  have each: "\<forall>m\<in>set ?ms. \<forall>h msg. fst (m h) = Inl msg
                \<longrightarrow> (\<exists>k\<in>set (calls (snd (m h))). throws c k = Some msg)"
    using call_thrown alloc_thrown by simp
  obtain r h' where st: "steps ?ms h = (r, h')" by (cases "steps ?ms h")
  show ?thesis
  proof (cases r)
    case (Inl msg')
    with st thrown have "fst (steps ?ms h) = Inl msg" by (simp add: pixelCount_def)
    from steps_thrown [OF each this] st Inl show ?thesis by (simp add: pixelCount_def)
  next
    case (Inr u)
    with st thrown show ?thesis by (simp add: pixelCount_def)
  qed
qed

lemma pixelCleanup_thrown:
  "fst (pixelCleanup c h) = Inl msg \<Longrightarrow>
     \<exists>k\<in>set (calls (snd (pixelCleanup c h))). throws c k = Some msg"
  unfolding pixelCleanup_def
  by (rule steps_thrown [rotated]) (use release_thrown in simp_all)


lemma processImage_contour_error:
  assumes changed: "error (state_of (processImage_contour cv loaded a)) \<noteq> error a"
  shows "cv = None \<or> \<not> truthy (capturedImage a)
         \<or> (\<exists>c. cv = Some c
               \<and> (\<exists>k\<in>set (calls (heap_of (processImage_contour cv loaded a))). throws c k \<noteq> None))"
proof (cases cv)
  case None
  then show ?thesis by simp
next
  case (Some c)
  show ?thesis
  proof (cases "truthy (capturedImage a) \<and> loaded")
    case False
    with Some changed show ?thesis
      by (auto simp: processImage_contour_def Let_def)
  next
    case True
    obtain r h where count: "contourCount c no_heap = (r, h)" by (cases "contourCount c no_heap")
    show ?thesis
    proof (cases r)
      case (Inl msg)
      with count have "fst (contourCount c no_heap) = Inl msg" by simp
      from contourCount_thrown [OF this] count
      have "\<exists>k\<in>set (calls h). throws c k \<noteq> None" by auto
      with Some True count Inl show ?thesis
        by (simp add: processImage_contour_def Let_def)
    next
      case (Inr n)
      obtain r' h' where cleanup: "contourCleanup c h = (r', h')" by (cases "contourCleanup c h")
      show ?thesis
      proof (cases r')
        case (Inl msg)
        with cleanup have "fst (contourCleanup c h) = Inl msg" by simp
        from contourCleanup_thrown [OF this] cleanup
        have "\<exists>k\<in>set (calls h'). throws c k \<noteq> None" by auto
        with Some True count Inr cleanup show ?thesis
          by (simp add: processImage_contour_def Let_def)
      next
        case (Inr u)
        with Some True count \<open>r = Inr n\<close> cleanup changed show ?thesis
          by (simp add: processImage_contour_def Let_def finish_def)
      qed
    qed
  qed
qed

lemma processImage_pixel_error:
  assumes present: "error (state_of (processImage_pixel cv loaded p)) \<noteq> None"
  shows "cv = None \<or> \<not> truthy (capturedImage p)
         \<or> (\<exists>c. cv = Some c
               \<and> (\<exists>k\<in>set (calls (heap_of (processImage_pixel cv loaded p))). throws c k \<noteq> None))"
proof (cases cv)
  case None
  then show ?thesis by simp
next
  case (Some c)
  show ?thesis
  proof (cases "truthy (capturedImage p)")
    case False
    then show ?thesis by simp
  next
    case frame: True
    show ?thesis
    proof (cases loaded)
      case False
      with Some frame present show ?thesis
        by (simp add: processImage_pixel_def Let_def)
    next
      case True
      obtain r h where count: "pixelCount c no_heap = (r, h)" by (cases "pixelCount c no_heap")
      show ?thesis
      proof (cases r)
        case (Inl msg)
        with count have "fst (pixelCount c no_heap) = Inl msg" by simp
        from pixelCount_thrown [OF this] count
        have "\<exists>k\<in>set (calls h). throws c k \<noteq> None" by auto
        with Some frame True count Inl show ?thesis
          by (simp add: processImage_pixel_def Let_def)
      next
        case (Inr n)
        obtain r' h' where cleanup: "pixelCleanup c h = (r', h')" by (cases "pixelCleanup c h")
        show ?thesis
        proof (cases r')
          case (Inl msg)
          with cleanup have "fst (pixelCleanup c h) = Inl msg" by simp
          from pixelCleanup_thrown [OF this] cleanup
          have "\<exists>k\<in>set (calls h'). throws c k \<noteq> None" by auto
          with Some frame True count Inr cleanup show ?thesis
            by (simp add: processImage_pixel_def Let_def)
        next
          case (Inr u)
          with Some frame True count \<open>r = Inr n\<close> cleanup present show ?thesis
            by (simp add: processImage_pixel_def Let_def finish_def)
        qed
      qed
    qed
  qed
qed

lemma processImage_pixel_clears:
  "truthy (capturedImage p) \<Longrightarrow> error (state_of (processImage_pixel (Some c) False p)) = None"
  by (simp add: processImage_pixel_def Let_def)

text \<open>
  Claim C5 says that the next step that succeeds, or a reset or retake, clears \<open>error\<close>.
  \<open>captureImage\<close> never writes \<open>error\<close>: a capture that stores a frame leaves a message
  where it was. And \<open>resetCapture\<close> and \<open>retakeImage\<close> do not write \<open>error\<close>
  themselves; when the camera request they start is rejected, the message left by a failed
  processing is replaced by the camera message.
\<close>

theorem error_lifecycle_counterexample:
  "error (state_of (processImage_pixel None True (startCamera (Granted 0) initial_pixel)))
     = Some unavailableMessage
   \<and> capturedImage (captureImage True ''frame''
        (state_of (processImage_pixel None True (startCamera (Granted 0) initial_pixel))))
     = Some ''data:frame''
   \<and> error (captureImage True ''frame''
        (state_of (processImage_pixel None True (startCamera (Granted 0) initial_pixel))))
     = Some unavailableMessage
   \<and> error (run_pixel [StartClicked (Granted 0), CaptureClicked True ''frame'',
                        ProcessClicked None True]) = Some unavailableMessage
   \<and> error (run_pixel [StartClicked (Granted 0), CaptureClicked True ''frame'',
                        ProcessClicked None True, RetakeClicked Rejected]) = Some cameraMessage"
  by (simp add: run_pixel_def dispatch_pixel_def render_pixel_def click_pixel_def control_def
      button_def startCamera_def captureImage_def stopCamera_def initial_pixel_def
      truthy_def toDataURL_def processImage_pixel_def retakeImage_def unmounted_def)

text \<open>
  Claim C5 as amended. \<open>error\<close> is cleared by a \<open>startCamera\<close> that is granted a stream
  while the video element is mounted, also when reset or retake started it; with a rejected
  request reset and retake leave the camera message. In the pixel variant \<open>processImage\<close>
  clears \<open>error\<close> once it is past its first check, and \<open>error\<close> is null when it settles
  with no call having thrown. \<open>captureImage\<close> and \<open>stopCamera\<close> never change \<open>error\<close>.
  \<open>error\<close> changes to a message only in a step that fails: a rejected camera request, the
  first check of \<open>processImage\<close> (library not loaded or no frame), or a library call that
  threw.
\<close>

theorem error_lifecycle:
  "(videoRef s \<noteq> None \<longrightarrow> error (startCamera (Granted stream) s) = None)
   \<and> (videoRef a \<noteq> None \<longrightarrow> error (resetCapture (Granted stream) a) = None)
   \<and> error (retakeImage (Granted stream) p) = None
   \<and> error (resetCapture Rejected a) = Some cameraMessage
   \<and> error (retakeImage Rejected p) = Some cameraMessage
   \<and> (truthy (capturedImage p) \<longrightarrow>
        error (state_of (processImage_pixel (Some c) False p)) = None)
   \<and> (truthy (capturedImage p) \<and> (\<forall>k. throws c k = None) \<longrightarrow>
        error (state_of (processImage_pixel (Some c) True p)) = None)
   \<and> error (captureImage ctx pixels s) = error s
   \<and> error (stopCamera s) = error s
   \<and> (error (startCamera answer s) \<noteq> None \<and> error (startCamera answer s) \<noteq> error s \<longrightarrow>
        answer = Rejected)
   \<and> (error (resetCapture answer a) \<noteq> None \<and> error (resetCapture answer a) \<noteq> error a \<longrightarrow>
        answer = Rejected)
   \<and> (error (retakeImage answer p) \<noteq> None \<and> error (retakeImage answer p) \<noteq> error p \<longrightarrow>
        answer = Rejected)
   \<and> (error (state_of (processImage_contour cv loaded a)) \<noteq> error a \<longrightarrow>
        cv = None \<or> \<not> truthy (capturedImage a)
        \<or> (\<exists>c. cv = Some c
              \<and> (\<exists>k\<in>set (calls (heap_of (processImage_contour cv loaded a))). throws c k \<noteq> None)))
   \<and> (error (state_of (processImage_pixel cv loaded p)) \<noteq> None \<longrightarrow>
        cv = None \<or> \<not> truthy (capturedImage p)
        \<or> (\<exists>c. cv = Some c
              \<and> (\<exists>k\<in>set (calls (heap_of (processImage_pixel cv loaded p))). throws c k \<noteq> None)))"
proof -
  have start: "videoRef s \<noteq> None \<longrightarrow> error (startCamera (Granted stream) s) = None"
    by (auto simp: startCamera_def)
  have reset: "videoRef a \<noteq> None \<longrightarrow> error (resetCapture (Granted stream) a) = None"
    by (auto simp: resetCapture_def render_contour_def startCamera_def)
  have retake: "error (retakeImage (Granted stream) p) = None"
    by (simp add: retakeImage_def render_pixel_def startCamera_def truthy_def split: option.split)
  have rejected: "error (resetCapture Rejected a) = Some cameraMessage"
    "error (retakeImage Rejected p) = Some cameraMessage"
    by (simp_all add: resetCapture_def retakeImage_def startCamera_def)
  have quiet: "truthy (capturedImage p) \<and> (\<forall>k. throws c k = None) \<longrightarrow>
        error (state_of (processImage_pixel (Some c) True p)) = None"
    by (simp add: processImage_pixel_quiet)
  have capture: "error (captureImage ctx pixels s) = error s"
    by (simp add: captureImage_def stopCamera_def split: option.split video.split)
  have stop: "error (stopCamera s) = error s"
    by (simp add: stopCamera_def split: option.split video.split)
  have only_start: "error (startCamera answer s) \<noteq> None \<and> error (startCamera answer s) \<noteq> error s
        \<longrightarrow> answer = Rejected"
    by (simp add: startCamera_def split: media.split option.split)
  have only_reset: "error (resetCapture answer a) \<noteq> None \<and> error (resetCapture answer a) \<noteq> error a
        \<longrightarrow> answer = Rejected"
    by (simp add: resetCapture_def render_contour_def startCamera_def split: media.split option.split)
  have only_retake: "error (retakeImage answer p) \<noteq> None \<and> error (retakeImage answer p) \<noteq> error p
        \<longrightarrow> answer = Rejected"
    by (simp add: retakeImage_def render_pixel_def startCamera_def truthy_def
        split: media.split option.split)
  from start reset retake rejected quiet capture stop only_start only_reset only_retake
    processImage_pixel_clears [of p c] processImage_contour_error [of cv loaded a]
    processImage_pixel_error [of cv loaded p]
  show ?thesis by blast
qed

theorem error_lifecycle_witness:
  "videoRef initial_contour \<noteq> None
   \<and> error (startCamera (Granted 1) initial_contour) = None
   \<and> videoRef (captureImage True ''frame'' (startCamera (Granted 0) initial_contour)) \<noteq> None
   \<and> truthy (capturedImage (captureImage True ''frame'' (startCamera (Granted 0) initial_pixel)))
   \<and> (\<forall>k. throws \<lparr>throws = (\<lambda>k. None), contourAreas = [], nonZero = 7\<rparr> k = None)
   \<and> error (state_of (processImage_pixel (Some \<lparr>throws = (\<lambda>k. None), contourAreas = [], nonZero = 7\<rparr>) True (captureImage True ''frame'' (startCamera (Granted 0) initial_pixel)))) = None
   \<and> error (startCamera Rejected initial_contour) \<noteq> None
   \<and> error (startCamera Rejected initial_contour) \<noteq> error initial_contour
   \<and> error (resetCapture Rejected (captureImage True ''frame'' (startCamera (Granted 0) initial_contour))) \<noteq> None
   \<and> error (resetCapture Rejected (captureImage True ''frame'' (startCamera (Granted 0) initial_contour))) \<noteq> error (captureImage True ''frame'' (startCamera (Granted 0) initial_contour))
   \<and> error (retakeImage Rejected (captureImage True ''frame'' (startCamera (Granted 0) initial_pixel))) \<noteq> None
   \<and> error (retakeImage Rejected (captureImage True ''frame'' (startCamera (Granted 0) initial_pixel))) \<noteq> error (captureImage True ''frame'' (startCamera (Granted 0) initial_pixel))
   \<and> error (state_of (processImage_contour None True (captureImage True ''frame'' (startCamera (Granted 0) initial_contour)))) \<noteq> error (captureImage True ''frame'' (startCamera (Granted 0) initial_contour))
   \<and> error (state_of (processImage_pixel None True (captureImage True ''frame'' (startCamera (Granted 0) initial_pixel)))) \<noteq> None"
proof -
  let ?a = "(captureImage True ''frame'' (startCamera (Granted 0) initial_contour))"
  let ?p = "(captureImage True ''frame'' (startCamera (Granted 0) initial_pixel))"
  let ?c = "\<lparr>throws = (\<lambda>k. None), contourAreas = [], nonZero = 7\<rparr>"
  have vs: "videoRef initial_contour \<noteq> None" "error initial_contour = None"
    by (simp_all add: initial_contour_def)
  have va: "videoRef ?a \<noteq> None" "error ?a = None"
    by (simp_all add: captureImage_def startCamera_def initial_contour_def stopCamera_def)
  have fp: "truthy (capturedImage ?p)" "error ?p = None"
    by (simp_all add: captureImage_def startCamera_def initial_pixel_def stopCamera_def truthy_def
        toDataURL_def)
  have quiet: "\<forall>k. throws ?c k = None" by simp
  have rej: "error (startCamera Rejected initial_contour) = Some cameraMessage"
    by (simp add: startCamera_def)
  have ff: "error (state_of (processImage_contour None True ?a)) = Some unavailableMessage"
    "error (state_of (processImage_pixel None True ?p)) = Some unavailableMessage"
    by (simp_all add: processImage_contour_def processImage_pixel_def)
  from vs va fp quiet rej ff
    error_lifecycle [where s = initial_contour and stream = 1 and a = ?a and p = ?p and c = ?c
      and ctx = True and pixels = "''frame''" and answer = Rejected and cv = None
      and loaded = True]
  show ?thesis by simp
qed


end
